theory Spec2Isabelle
  imports Complex_Main
begin

section \<open>The command line driver: \<open>ccmpred/scripts/run_ccmpred.py\<close>\<close>

subsection \<open>Parsed options\<close>

text \<open>
  \<open>parse_args\<close> builds an \<open>argparse\<close> parser, lets it read the command line and then
  checks three combinations of options. The parser itself is library code; the model
  starts from the namespace it returns. Only the options that decide the control flow of
  \<open>main\<close> are kept; all others are merely handed on to the stages of the pipeline.

  The destinations \<open>objfun\<close> and \<open>algorithm\<close> are filled by \<open>store_const\<close> actions only,
  so their values range over the constants declared there.
\<close>

datatype objfun_t = PLL | CD

datatype algorithm_t = LBFGS | CG | ND | GD | ADAM

record args =
  matfile :: "string option"
  out_binary_raw_file :: "string option"
  initrawfile :: "string option"
  optimize :: bool
  pdbfile :: "string option"
  logo :: bool
  objfun :: objfun_t
  algorithm :: algorithm_t
  omes :: bool
  mi :: bool

text \<open>Python truth value of an option that is \<open>None\<close> or a string.\<close>

definition truthy :: "string option \<Rightarrow> bool" where
  "truthy s = (case s of None \<Rightarrow> False | Some t \<Rightarrow> t \<noteq> [])"

text \<open>The three calls of \<open>parser.error\<close>; each prints the usage and leaves the process
  with status 2.\<close>

datatype usage_error = DoNotOptimizeNeedsInit | PllNeedsCgOrLbfgs | CdNeedsGdOrAdam

definition parse_args :: "args \<Rightarrow> usage_error + args" where
  "parse_args a =
     (if \<not> optimize a \<and> \<not> truthy (initrawfile a) then Inl DoNotOptimizeNeedsInit
      else if objfun a = PLL \<and> (algorithm a \<noteq> CG \<and> algorithm a \<noteq> ND \<and> algorithm a \<noteq> LBFGS)
        then Inl PllNeedsCgOrLbfgs
      else if objfun a = CD \<and> (algorithm a \<noteq> GD \<and> algorithm a \<noteq> ADAM)
        then Inl CdNeedsGdOrAdam
      else Inr a)"

subsection \<open>The pipeline\<close>

text \<open>
  The class \<open>CCMpred\<close>, the objective functions and the optimizers are not part of the
  sources at hand. Each call into them is a stage of the run; the environment says which
  stages raise and which code the optimizer reports in \<open>ccm.algret['code']\<close>.
\<close>

datatype stage =
    PrintLogo | SetThreads | NewCCMpred
  | SetAlignmentFile | SetMatfile | SetPdbFile | SetInitrawFile
  | ReadAlignment | ComputeSequenceWeights | ComputeFrequencies | ReadPdb
  | ComputeOmes | ComputeMutualInfo | WriteMatrix
  | SpecifyRegularization | IntialisePotentials
  | NewProgress | NewObjfun | NewAlgorithm | Minimize | PrintDoNotOptimize
  | ComputeContactMatrix | ComputeCorrection | WriteBinaryRaw

record env =
  raises :: "stage \<Rightarrow> bool"
  algret_code :: int

text \<open>How the process ends: \<open>sys.exit(n)\<close>, a usage error, or an exception that nobody
  catches. The status that the parent process sees has eight bits: of the argument of
  \<open>sys.exit\<close> it keeps \<open>n mod 256\<close> (so \<open>sys.exit(256)\<close> is seen as 0).\<close>

datatype outcome = Exit int | Usage usage_error | Raised stage

fun exit_status :: "outcome \<Rightarrow> int" where
  "exit_status (Exit n) = n mod 256"
| "exit_status (Usage e) = 2"
| "exit_status (Raised s) = 1"

text \<open>A run is a list of the stages entered so far; a stage that raises ends it.\<close>

type_synonym run = "(outcome \<times> stage list) + stage list"

definition enter :: "env \<Rightarrow> stage \<Rightarrow> stage list \<Rightarrow> run" where
  "enter e s tr = (if raises e s then Inl (Raised s, tr @ [s]) else Inr (tr @ [s]))"

definition andthen :: "run \<Rightarrow> (stage list \<Rightarrow> run) \<Rightarrow> run" where
  "andthen r f = (case r of Inl x \<Rightarrow> Inl x | Inr tr \<Rightarrow> f tr)"

fun enter_all :: "env \<Rightarrow> stage list \<Rightarrow> stage list \<Rightarrow> run" where
  "enter_all e [] tr = Inr tr"
| "enter_all e (s # ss) tr = andthen (enter e s tr) (enter_all e ss)"

definition sys_exit :: "int \<Rightarrow> stage list \<Rightarrow> run" where
  "sys_exit n tr = Inl (Exit n, tr)"

definition guarded :: "bool \<Rightarrow> (stage list \<Rightarrow> run) \<Rightarrow> stage list \<Rightarrow> run" where
  "guarded b f tr = (if b then f tr else Inr tr)"

definition main_body :: "env \<Rightarrow> args \<Rightarrow> stage list \<Rightarrow> run" where
  "main_body e opt tr0 =
     andthen (guarded (logo opt) (enter e PrintLogo) tr0) (\<lambda>tr.
     andthen (enter_all e [SetThreads, NewCCMpred,
                SetAlignmentFile, SetMatfile, SetPdbFile, SetInitrawFile,
                ReadAlignment, ComputeSequenceWeights, ComputeFrequencies] tr) (\<lambda>tr.
     andthen (guarded (truthy (pdbfile opt)) (enter e ReadPdb) tr) (\<lambda>tr.
     andthen (guarded (omes opt)
                (\<lambda>tr. andthen (enter_all e [ComputeOmes, WriteMatrix] tr) (sys_exit 0)) tr) (\<lambda>tr.
     andthen (guarded (mi opt)
                (\<lambda>tr. andthen (enter_all e [ComputeMutualInfo, WriteMatrix] tr) (sys_exit 0)) tr) (\<lambda>tr.
     andthen (enter_all e [SpecifyRegularization, IntialisePotentials] tr) (\<lambda>tr.
     andthen (if optimize opt
              then enter_all e [NewProgress, NewObjfun, NewAlgorithm, Minimize] tr
              else enter e PrintDoNotOptimize tr) (\<lambda>tr.
     andthen (guarded (truthy (matfile opt))
                (enter_all e [ComputeContactMatrix, ComputeCorrection, WriteMatrix]) tr) (\<lambda>tr.
     andthen (guarded (truthy (out_binary_raw_file opt)) (enter e WriteBinaryRaw) tr) (\<lambda>tr.
       sys_exit (if optimize opt \<and> algret_code e < 0 then - algret_code e else 0) tr)))))))))"

definition main :: "env \<Rightarrow> args \<Rightarrow> outcome \<times> stage list" where
  "main e a =
     (case parse_args a of
        Inl u \<Rightarrow> (Usage u, [])
      | Inr opt \<Rightarrow>
          (case main_body e opt [] of
             Inl r \<Rightarrow> r
           | Inr tr \<Rightarrow> (Exit 0, tr)))"

subsection \<open>Traces\<close>

text \<open>The stages a run has entered, whether it still goes on or has ended.\<close>

definition trace_of :: "run \<Rightarrow> stage list" where
  "trace_of r = (case r of Inl x \<Rightarrow> snd x | Inr tr \<Rightarrow> tr)"

text \<open>The stages of a run that only computes an alternative score.\<close>

definition score_stages :: "stage set" where
  "score_stages = {PrintLogo, SetThreads, NewCCMpred, SetAlignmentFile, SetMatfile, SetPdbFile,
     SetInitrawFile, ReadAlignment, ComputeSequenceWeights, ComputeFrequencies, ReadPdb,
     ComputeOmes, ComputeMutualInfo, WriteMatrix}"

subsection \<open>Concrete command lines\<close>

definition env_ok :: "int \<Rightarrow> env" where
  "env_ok c = \<lparr>raises = (\<lambda>s. False), algret_code = c\<rparr>"

text \<open>The defaults of the parser: pseudo-likelihood, optimized with L-BFGS.\<close>

definition args_default :: args where
  "args_default = \<lparr>matfile = None, out_binary_raw_file = None, initrawfile = None,
     optimize = True, pdbfile = None, logo = True, objfun = PLL, algorithm = LBFGS,
     omes = False, mi = False\<rparr>"

text \<open>\<open>--alg-gd\<close>, \<open>--do-not-optimize\<close> (without \<open>-i\<close>), \<open>--compute-omes\<close> and
  \<open>--compute-omes --alg-gd\<close>.\<close>

definition args_pll_gd :: args where
  "args_pll_gd = args_default\<lparr>algorithm := GD\<rparr>"

definition args_do_not_optimize :: args where
  "args_do_not_optimize = args_default\<lparr>optimize := False\<rparr>"

definition args_omes :: args where
  "args_omes = args_default\<lparr>omes := True\<rparr>"

definition args_omes_gd :: args where
  "args_omes_gd = args_default\<lparr>omes := True, algorithm := GD\<rparr>"


section \<open>Model probabilities: \<open>ccmpred/model_probabilities.py\<close>\<close>

subsection \<open>Numbers\<close>

text \<open>
  The arrays hold IEEE double precision numbers. The model keeps what decides the
  control flow of the code: the two infinities and NaN, next to the finite values. It
  idealises the finite values as reals, so it does not round, a finite result never
  overflows, and the only zero is the positive one.
\<close>

datatype fl = Fin real | PInf | NInf | NaN

fun isnan :: "fl \<Rightarrow> bool" where
  "isnan NaN = True"
| "isnan x = False"

text \<open>The comparison \<open>x < 0\<close>; it is false for NaN.\<close>

fun negative :: "fl \<Rightarrow> bool" where
  "negative (Fin x) = (x < 0)"
| "negative NInf = True"
| "negative x = False"

definition inf_of :: "bool \<Rightarrow> fl" where
  "inf_of neg = (if neg then NInf else PInf)"

fun fneg :: "fl \<Rightarrow> fl" where
  "fneg (Fin x) = Fin (- x)"
| "fneg PInf = NInf"
| "fneg NInf = PInf"
| "fneg NaN = NaN"

fun fadd :: "fl \<Rightarrow> fl \<Rightarrow> fl" where
  "fadd (Fin x) (Fin y) = Fin (x + y)"
| "fadd NaN y = NaN"
| "fadd x NaN = NaN"
| "fadd PInf NInf = NaN"
| "fadd NInf PInf = NaN"
| "fadd PInf y = PInf"
| "fadd NInf y = NInf"
| "fadd (Fin x) y = y"

definition fsub :: "fl \<Rightarrow> fl \<Rightarrow> fl" where
  "fsub x y = fadd x (fneg y)"

fun fmul :: "fl \<Rightarrow> fl \<Rightarrow> fl" where
  "fmul (Fin x) (Fin y) = Fin (x * y)"
| "fmul NaN y = NaN"
| "fmul x NaN = NaN"
| "fmul (Fin x) y = (if x = 0 then NaN else inf_of ((x < 0) \<noteq> negative y))"
| "fmul x (Fin y) = (if y = 0 then NaN else inf_of (negative x \<noteq> (y < 0)))"
| "fmul x y = inf_of (negative x \<noteq> negative y)"

text \<open>Division of arrays does not raise: a zero divisor gives an infinity, or NaN for
  \<open>0 / 0\<close>.\<close>

fun fdiv :: "fl \<Rightarrow> fl \<Rightarrow> fl" where
  "fdiv (Fin x) (Fin y) =
     (if y = 0 then (if x = 0 then NaN else inf_of (x < 0)) else Fin (x / y))"
| "fdiv NaN y = NaN"
| "fdiv x NaN = NaN"
| "fdiv (Fin x) y = Fin 0"
| "fdiv x (Fin y) = inf_of (negative x \<noteq> (y < 0))"
| "fdiv x y = NaN"

definition fsum :: "fl list \<Rightarrow> fl" where
  "fsum xs = foldl fadd (Fin 0) xs"

subsection \<open>Arrays, the store and the files\<close>

text \<open>
  An array is a nested list in row-major order. The arrays that the caller hands over,
  and the arrays that the code assigns into, live in a store and are known by their
  address; \<open>np.zeros\<close> and \<open>flatten\<close> put a new array at a new address. Arrays that are
  built and only read afterwards are plain values.
\<close>

type_synonym arr1 = "fl list"
type_synonym arr2 = "fl list list"
type_synonym arr4 = "fl list list list list"
type_synonym ref = nat

datatype ndarray = F1 arr1 | F2 arr2 | F4 arr4 | I2 "nat list list"

text \<open>The dictionary \<open>out\<close>; \<open>msgpack.packb\<close> turns it into bytes, which the model does
  not look into.\<close>

record container =
  N_ij :: "fl list"
  q_ij :: "fl list"

record fileobj =
  fpath :: string
  fmode :: string
  gzipped :: bool
  fclosed :: bool
  written :: "container list"

datatype message = NegativeWarning nat | NanWarning "nat list"

text \<open>The module runs under both lines of the language (it imports \<open>six\<close>); they differ
  in the operator \<open>/\<close> on integers.\<close>

datatype interpreter = Python2 | Python3

record world =
  heap :: "ndarray list"
  files :: "fileobj list"
  stdout :: "message list"
  unopenable :: "string list"
  python :: interpreter

datatype error =
  IndexError | ValueError | TypeError | IOError | UnboundLocalError | ZeroDivisionError

text \<open>A statement changes the world and returns a value or raises.\<close>

type_synonym 'a io = "world \<Rightarrow> (error + 'a) \<times> world"

definition ret :: "'a \<Rightarrow> 'a io" where
  "ret x w = (Inr x, w)"

definition lift :: "error + 'a \<Rightarrow> 'a io" where
  "lift r w = (r, w)"

definition then_do :: "'a io \<Rightarrow> ('a \<Rightarrow> 'b io) \<Rightarrow> 'b io" where
  "then_do m f w = (case m w of (Inl e, w') \<Rightarrow> (Inl e, w') | (Inr x, w') \<Rightarrow> f x w')"

fun for_loop :: "'i list \<Rightarrow> ('i \<Rightarrow> 's \<Rightarrow> 's io) \<Rightarrow> 's \<Rightarrow> 's io" where
  "for_loop [] body s = ret s"
| "for_loop (x # xs) body s = then_do (body x s) (for_loop xs body)"

definition alloc :: "ndarray \<Rightarrow> ref io" where
  "alloc a w = (Inr (length (heap w)), w\<lparr>heap := heap w @ [a]\<rparr>)"

definition get_f1 :: "ref \<Rightarrow> arr1 io" where
  "get_f1 r w = (if r < length (heap w)
     then (case heap w ! r of F1 a \<Rightarrow> (Inr a, w) | _ \<Rightarrow> (Inl TypeError, w))
     else (Inl TypeError, w))"

definition get_f2 :: "ref \<Rightarrow> arr2 io" where
  "get_f2 r w = (if r < length (heap w)
     then (case heap w ! r of F2 a \<Rightarrow> (Inr a, w) | _ \<Rightarrow> (Inl TypeError, w))
     else (Inl TypeError, w))"

definition get_f4 :: "ref \<Rightarrow> arr4 io" where
  "get_f4 r w = (if r < length (heap w)
     then (case heap w ! r of F4 a \<Rightarrow> (Inr a, w) | _ \<Rightarrow> (Inl TypeError, w))
     else (Inl TypeError, w))"

definition get_i2 :: "ref \<Rightarrow> nat list list io" where
  "get_i2 r w = (if r < length (heap w)
     then (case heap w ! r of I2 a \<Rightarrow> (Inr a, w) | _ \<Rightarrow> (Inl TypeError, w))
     else (Inl TypeError, w))"

definition put :: "ref \<Rightarrow> ndarray \<Rightarrow> unit io" where
  "put r a w = (Inr (), w\<lparr>heap := (heap w)[r := a]\<rparr>)"

definition py_print :: "message \<Rightarrow> unit io" where
  "py_print m w = (Inr (), w\<lparr>stdout := stdout w @ [m]\<rparr>)"

subsection \<open>The operations of numpy that the code uses\<close>

text \<open>\<open>a / b\<close> on two integers: the integer quotient under Python 2, a float under
  Python 3, also when \<open>b\<close> divides \<open>a\<close>.\<close>

datatype number = PyInt nat | PyFloat fl

definition divide :: "nat \<Rightarrow> nat \<Rightarrow> number io" where
  "divide a b w =
     (if b = 0 then (Inl ZeroDivisionError, w)
      else (case python w of
              Python2 \<Rightarrow> (Inr (PyInt (a div b)), w)
            | Python3 \<Rightarrow> (Inr (PyFloat (Fin (real a / real b))), w)))"

text \<open>\<open>np.zeros((r, c))\<close>: a float is not accepted as a dimension
  (\<open>TypeError: 'float' object cannot be interpreted as an integer\<close>).\<close>

definition np_zeros :: "number \<Rightarrow> nat \<Rightarrow> ref io" where
  "np_zeros r c =
     (case r of
        PyInt n \<Rightarrow> alloc (F2 (replicate n (replicate c (Fin 0))))
      | PyFloat x \<Rightarrow> lift (Inl TypeError))"

text \<open>\<open>a.flatten()\<close> of a two-dimensional array in the store: always a copy.\<close>

definition flatten :: "ref \<Rightarrow> ref io" where
  "flatten a = then_do (get_f2 a) (\<lambda>rows. alloc (F1 (concat rows)))"

text \<open>\<open>a[i, j, :20, :20].flatten()\<close>: the indices are checked, the slices are not.\<close>

definition block_flat :: "arr4 \<Rightarrow> nat \<Rightarrow> nat \<Rightarrow> error + arr1" where
  "block_flat a i j =
     (if i < length a \<and> j < length (a ! i)
      then Inr (concat (map (take 20) (take 20 (a ! i ! j))))
      else Inl IndexError)"

text \<open>\<open>a[i, j]\<close>\<close>

definition getitem2 :: "arr2 \<Rightarrow> nat \<Rightarrow> nat \<Rightarrow> error + fl" where
  "getitem2 a i j =
     (if i < length a \<and> j < length (a ! i) then Inr (a ! i ! j) else Inl IndexError)"

text \<open>\<open>np.tril_indices(n, k=-1)\<close>: the cells below the diagonal, row by row.\<close>

definition tril_indices :: "nat \<Rightarrow> (nat \<times> nat) list" where
  "tril_indices n = concat (map (\<lambda>i. map (Pair i) [0..<i]) [0..<n])"

text \<open>\<open>a[(rows, cols)].tolist()\<close> for a list of cells.\<close>

fun getitem_cells :: "arr2 \<Rightarrow> (nat \<times> nat) list \<Rightarrow> error + fl list" where
  "getitem_cells a [] = Inr []"
| "getitem_cells a ((i, j) # ps) =
     (case getitem2 a i j of
        Inl e \<Rightarrow> Inl e
      | Inr x \<Rightarrow> (case getitem_cells a ps of Inl e \<Rightarrow> Inl e | Inr xs \<Rightarrow> Inr (x # xs)))"

text \<open>An operation on two one-dimensional arrays, element by element; an array of
  length one is stretched to the length of the other.\<close>

definition elementwise :: "(fl \<Rightarrow> fl \<Rightarrow> fl) \<Rightarrow> arr1 \<Rightarrow> arr1 \<Rightarrow> error + arr1" where
  "elementwise f xs ys =
     (if length xs = length ys then Inr (map2 f xs ys)
      else if length xs = 1 then Inr (map (f (hd xs)) ys)
      else if length ys = 1 then Inr (map (\<lambda>x. f x (hd ys)) xs)
      else Inl ValueError)"

text \<open>\<open>a[k, :] = v\<close> for a two-dimensional array in the store.\<close>

definition setitem_row :: "ref \<Rightarrow> nat \<Rightarrow> arr1 \<Rightarrow> unit io" where
  "setitem_row a k v =
     then_do (get_f2 a) (\<lambda>rows.
       if k < length rows then
         (if length v = length (rows ! k) then put a (F2 (rows[k := v]))
          else if length v = 1 then put a (F2 (rows[k := replicate (length (rows ! k)) (hd v)]))
          else lift (Inl ValueError))
       else lift (Inl IndexError))"

text \<open>\<open>a[mask] = v\<close> for a one-dimensional array in the store. A mask stands for as many
  indices as it has dimensions, so a two-dimensional mask is one index too many.\<close>

datatype index_mask = M1 "bool list" | M2 "bool list list"

definition setitem_mask :: "ref \<Rightarrow> index_mask \<Rightarrow> fl \<Rightarrow> unit io" where
  "setitem_mask a m v =
     then_do (get_f1 a) (\<lambda>xs.
       case m of
         M1 bs \<Rightarrow>
           if length bs = length xs
           then put a (F1 (map2 (\<lambda>b x. if b then v else x) bs xs))
           else lift (Inl IndexError)
       | M2 bss \<Rightarrow> lift (Inl IndexError))"

text \<open>\<open>fh.write(c)\<close>; a closed file refuses it.\<close>

definition file_write :: "nat \<Rightarrow> container \<Rightarrow> unit io" where
  "file_write fh c w =
     (if fh < length (files w) \<and> \<not> fclosed (files w ! fh)
      then (Inr (), w\<lparr>files := (files w)[fh := (files w ! fh)\<lparr>written := written (files w ! fh) @ [c]\<rparr>]\<rparr>)
      else (Inl ValueError, w))"

subsection \<open>\<open>stream_or_file\<close>\<close>

text \<open>The first argument of a wrapped function: a file name or an open file.\<close>

datatype target = Path string | Stream nat

definition endswith :: "string \<Rightarrow> string \<Rightarrow> bool" where
  "endswith s suf = (length suf \<le> length s \<and> drop (length s - length suf) s = suf)"

datatype opener = Plain | Gzip

text \<open>\<open>open(f, mode)\<close> and \<open>gzip.open(f, mode)\<close>: the new handle, or an error for a file
  that cannot be opened.\<close>

definition open_fn :: "opener \<Rightarrow> string \<Rightarrow> string \<Rightarrow> nat io" where
  "open_fn opn f mode w =
     (if f \<in> set (unopenable w) then (Inl IOError, w)
      else (Inr (length (files w)),
            w\<lparr>files := files w @ [\<lparr>fpath = f, fmode = mode, gzipped = (opn = Gzip),
                                     fclosed = False, written = []\<rparr>]\<rparr>))"

text \<open>\<open>fh.close()\<close>\<close>

definition close :: "nat \<Rightarrow> world \<Rightarrow> world" where
  "close fh w = w\<lparr>files := (files w)[fh := (files w ! fh)\<lparr>fclosed := True\<rparr>]\<rparr>"

definition is_open :: "nat \<Rightarrow> world \<Rightarrow> bool" where
  "is_open fh w = (fh < length (files w) \<and> \<not> fclosed (files w ! fh))"

text \<open>
  The wrapper \<open>streamify\<close> that the decorator returns for \<open>fn\<close>; the further arguments
  of \<open>fn\<close> are fixed in \<open>fn\<close>. When \<open>open_fn\<close> raises, \<open>fh\<close> is still unbound in the
  \<open>finally\<close> clause, and the error of that clause replaces the one of \<open>open_fn\<close>.
\<close>

definition stream_or_file :: "string \<Rightarrow> (nat \<Rightarrow> 'a io) \<Rightarrow> target \<Rightarrow> 'a io" where
  "stream_or_file mode fn f w =
     (case f of
        Path p \<Rightarrow>
          (let open_fn' = (if endswith p ''.gz'' then open_fn Gzip else open_fn Plain) in
           case open_fn' p mode w of
             (Inl e, w1) \<Rightarrow> (Inl UnboundLocalError, w1)
           | (Inr fh, w1) \<Rightarrow> (case fn fh w1 of (res, w2) \<Rightarrow> (res, close fh w2)))
      | Stream s \<Rightarrow> fn s w)"

subsection \<open>\<open>calculate_Ni\<close> and \<open>calculate_Nij\<close>\<close>

text \<open>
  The module \<open>ccmpred.counts\<close> is compiled code that is not among the sources. The
  functions take it as a parameter: two functions from the contents of the alignment and
  of the weights to a new array of counts.
\<close>

record counts_module =
  single_counts :: "nat list list \<Rightarrow> fl list \<Rightarrow> arr2"
  pair_counts :: "nat list list \<Rightarrow> fl list \<Rightarrow> arr4"

text \<open>\<open>a.sum(1)\<close> of a two-dimensional array.\<close>

definition sum1 :: "arr2 \<Rightarrow> arr1" where
  "sum1 a = map fsum a"

text \<open>\<open>a.sum(3).sum(2)\<close> of a four-dimensional array.\<close>

definition sum3_sum2 :: "arr4 \<Rightarrow> arr2" where
  "sum3_sum2 a = map (map fsum) (map (map (map fsum)) a)"

definition calculate_Ni :: "counts_module \<Rightarrow> ref \<Rightarrow> ref \<Rightarrow> arr1 io" where
  "calculate_Ni cm msa weights =
     then_do (get_i2 msa) (\<lambda>m.
     then_do (get_f1 weights) (\<lambda>ws.
       let counts = single_counts cm m ws;
           counts = map (take 20) counts
       in ret (sum1 counts)))"

definition calculate_Nij :: "counts_module \<Rightarrow> ref \<Rightarrow> ref \<Rightarrow> arr2 io" where
  "calculate_Nij cm msa weights =
     then_do (get_i2 msa) (\<lambda>m.
     then_do (get_f1 weights) (\<lambda>ws.
       let counts = pair_counts cm m ws;
           counts = map (map (\<lambda>block. map (take 20) (take 20 block))) counts
       in ret (sum3_sum2 counts)))"

subsection \<open>\<open>write_msgpack\<close>\<close>

text \<open>The object \<open>res\<close>: the number of columns and the pair potentials.\<close>

record opt_result =
  ncol :: nat
  x_pair :: ref

text \<open>The body of the two loops, for the pair \<open>(i, j)\<close> and the row \<open>index\<close>.\<close>

definition pair_step ::
  "opt_result \<Rightarrow> ref \<Rightarrow> fl \<Rightarrow> arr2 \<Rightarrow> ref \<Rightarrow> nat \<Rightarrow> nat \<Rightarrow> nat \<Rightarrow> nat io" where
  "pair_step res pair_freq lambda_pair Nij model_prob i j index =
     then_do (get_f4 pair_freq) (\<lambda>pf.
     then_do (lift (block_flat pf i j)) (\<lambda>pair_freq_ij.
     then_do (get_f4 (x_pair res)) (\<lambda>xp.
     then_do (lift (block_flat xp i j)) (\<lambda>x_pair_ij.
     then_do (lift (getitem2 Nij i j)) (\<lambda>n.
     then_do (lift (elementwise fsub pair_freq_ij
                      (map (\<lambda>x. fdiv (fmul x lambda_pair) n) x_pair_ij))) (\<lambda>row.
     then_do (setitem_row model_prob index row) (\<lambda>_.
       ret (index + 1))))))))"

definition fill_model_prob ::
  "opt_result \<Rightarrow> ref \<Rightarrow> fl \<Rightarrow> arr2 \<Rightarrow> ref \<Rightarrow> nat io" where
  "fill_model_prob res pair_freq lambda_pair Nij model_prob =
     for_loop [0..<ncol res - 1] (\<lambda>i.
       for_loop [i + 1..<ncol res] (\<lambda>j.
         pair_step res pair_freq lambda_pair Nij model_prob i j)) 0"

text \<open>The two repairs of the flat copy. The second one tests the flat copy, but builds
  its mask from the two-dimensional \<open>model_prob\<close>.\<close>

definition clamp_negative :: "ref \<Rightarrow> unit io" where
  "clamp_negative model_prob_flat =
     then_do (get_f1 model_prob_flat) (\<lambda>qs.
       if \<exists>q \<in> set qs. negative q then
         then_do (py_print (NegativeWarning (length (filter negative qs)))) (\<lambda>_.
           setitem_mask model_prob_flat (M1 (map negative qs)) (Fin 0))
       else ret ())"

definition clamp_nan :: "ref \<Rightarrow> ref \<Rightarrow> unit io" where
  "clamp_nan model_prob model_prob_flat =
     then_do (get_f1 model_prob_flat) (\<lambda>qs.
       if \<exists>q \<in> set qs. isnan q then
         then_do (get_f2 model_prob) (\<lambda>rows.
         then_do (py_print (NanWarning
                    (map (\<lambda>c. length (filter (\<lambda>r. isnan (r ! c)) rows)) [0..<400]))) (\<lambda>_.
           setitem_mask model_prob_flat (M2 (map (map isnan) rows)) (Fin 0)))
       else ret ())"

text \<open>The entry \<open>'N_ij'\<close> with which the dictionary \<open>out\<close> is created:
  \<open>Nij[np.tril_indices(res.ncol, k=-1)].tolist()\<close>.\<close>

definition out_N_ij :: "opt_result \<Rightarrow> arr2 \<Rightarrow> error + fl list" where
  "out_N_ij res Nij = getitem_cells Nij (tril_indices (ncol res))"

text \<open>
  The function before it is wrapped. The number of rows of \<open>model_prob\<close> is written
  \<open>res.ncol * (res.ncol-1)/2\<close>: an integer under Python 2, a float under Python 3, which
  \<open>np.zeros\<close> refuses. The dictionary \<open>out\<close> and its entry \<open>'N_ij'\<close> exist by then; the
  entry \<open>'q_ij'\<close> is added after the two repairs, just before the dictionary is written.
\<close>

definition write_msgpack_body ::
  "counts_module \<Rightarrow> nat \<Rightarrow> opt_result \<Rightarrow> ref \<Rightarrow> ref \<Rightarrow> ref \<Rightarrow> fl \<Rightarrow> unit io" where
  "write_msgpack_body cm outmsgpackfile res msa weights pair_freq lambda_pair =
     then_do (calculate_Nij cm msa weights) (\<lambda>Nij.
     then_do (lift (out_N_ij res Nij)) (\<lambda>out_N_ij.
     then_do (divide (ncol res * (ncol res - 1)) 2) (\<lambda>rows.
     then_do (np_zeros rows 400) (\<lambda>model_prob.
     then_do (fill_model_prob res pair_freq lambda_pair Nij model_prob) (\<lambda>index.
     then_do (flatten model_prob) (\<lambda>model_prob_flat.
     then_do (clamp_negative model_prob_flat) (\<lambda>_.
     then_do (clamp_nan model_prob model_prob_flat) (\<lambda>_.
     then_do (get_f1 model_prob_flat) (\<lambda>out_q_ij.
       file_write outmsgpackfile \<lparr>N_ij = out_N_ij, q_ij = out_q_ij\<rparr>)))))))))"

definition write_msgpack ::
  "counts_module \<Rightarrow> target \<Rightarrow> opt_result \<Rightarrow> ref \<Rightarrow> ref \<Rightarrow> ref \<Rightarrow> fl \<Rightarrow> unit io" where
  "write_msgpack cm outmsgpackfile res msa weights pair_freq lambda_pair =
     stream_or_file ''wb''
       (\<lambda>fh. write_msgpack_body cm fh res msa weights pair_freq lambda_pair)
       outmsgpackfile"

subsection \<open>The counting module and concrete calls\<close>

text \<open>
  Modelled from the spec: the module \<open>ccmpred.counts\<close>, compiled code that is not among
  the sources. Single counts are, for each column, the weighted sum of one-hot symbol
  indicators, in an array of shape \<open>[L, 21]\<close>; pair counts are, for each pair of
  columns, the weighted sum of joint one-hot indicators, in an array of shape
  \<open>[L, L, 21, 21]\<close>.
\<close>

definition ncols :: "nat list list \<Rightarrow> nat" where
  "ncols msa = (case msa of [] \<Rightarrow> 0 | s # ss \<Rightarrow> length s)"

definition weight_of :: "(nat list \<Rightarrow> bool) \<Rightarrow> nat list list \<Rightarrow> fl list \<Rightarrow> fl" where
  "weight_of P msa ws = fsum (map snd (filter (\<lambda>sw. P (fst sw)) (zip msa ws)))"

definition ccmpred_counts :: counts_module where
  "ccmpred_counts =
     \<lparr>single_counts = (\<lambda>msa ws.
        map (\<lambda>i. map (\<lambda>a. weight_of (\<lambda>s. s ! i = a) msa ws) [0..<21]) [0..<ncols msa]),
      pair_counts = (\<lambda>msa ws.
        map (\<lambda>i. map (\<lambda>j. map (\<lambda>a. map (\<lambda>b.
          weight_of (\<lambda>s. s ! i = a \<and> s ! j = b) msa ws)
          [0..<21]) [0..<21]) [0..<ncols msa]) [0..<ncols msa])\<rparr>"

text \<open>An array of shape \<open>[L, L, 21, 21]\<close> with the same value in every cell.\<close>

definition full4 :: "nat \<Rightarrow> fl \<Rightarrow> arr4" where
  "full4 L x = replicate L (replicate L (replicate 21 (replicate 21 x)))"

text \<open>A world with the four arrays of a call at the addresses 0 to 3, and one open
  stream, under a Python 2 interpreter.\<close>

definition world_of :: "nat list list \<Rightarrow> fl list \<Rightarrow> arr4 \<Rightarrow> arr4 \<Rightarrow> world" where
  "world_of msa ws pair_freq xp =
     \<lparr>heap = [I2 msa, F1 ws, F4 pair_freq, F4 xp],
      files = [\<lparr>fpath = ''out'', fmode = ''wb'', gzipped = False, fclosed = False, written = []\<rparr>],
      stdout = [], unopenable = [], python = Python2\<rparr>"

text \<open>Three columns and three sequences, each with a gap in another column.\<close>

definition msa3 :: "nat list list" where
  "msa3 = [[0, 0, 20], [0, 20, 0], [20, 0, 0]]"

definition weights3 :: "fl list" where
  "weights3 = [Fin 1, Fin 2, Fin 3]"

definition world3 :: world where
  "world3 = world_of msa3 weights3 (full4 3 (Fin (1 / 441))) (full4 3 (Fin 0))"

text \<open>The same call under a Python 3 interpreter.\<close>

definition world3_py3 :: world where
  "world3_py3 = world3\<lparr>python := Python3\<rparr>"

text \<open>Two columns and one sequence with a gap in the first column: no sequence has
  amino acids in both columns.\<close>

definition msa2 :: "nat list list" where
  "msa2 = [[20, 0]]"

definition world2 :: "fl \<Rightarrow> world" where
  "world2 x = world_of msa2 [Fin 1] (full4 2 (Fin (1 / 441))) (full4 2 x)"

definition call :: "nat \<Rightarrow> world \<Rightarrow> (error + unit) \<times> world" where
  "call L = write_msgpack ccmpred_counts (Stream 0) \<lparr>ncol = L, x_pair = 3\<rparr> 0 1 2 (Fin 1)"

subsection \<open>What a statement leaves alone\<close>

text \<open>A statement keeps the first \<open>n\<close> arrays of the store and all files but \<open>fh\<close>.\<close>

definition frame :: "nat \<Rightarrow> nat \<Rightarrow> 'a io \<Rightarrow> bool" where
  "frame n fh m =
     (\<forall>w. n \<le> length (heap w) \<longrightarrow>
        n \<le> length (heap (snd (m w)))
        \<and> take n (heap (snd (m w))) = take n (heap w)
        \<and> length (files w) \<le> length (files (snd (m w)))
        \<and> (\<forall>h<length (files w). h \<noteq> fh \<longrightarrow> files (snd (m w)) ! h = files w ! h))"

text \<open>A statement returns an address beyond the first \<open>n\<close>.\<close>

definition fresh :: "nat \<Rightarrow> ref io \<Rightarrow> bool" where
  "fresh n m = (\<forall>w x. n \<le> length (heap w) \<longrightarrow> fst (m w) = Inr x \<longrightarrow> n \<le> x)"

subsection \<open>Shapes, and the values that the code is to compute\<close>

definition shape2 :: "nat \<Rightarrow> nat \<Rightarrow> 'a list list \<Rightarrow> bool" where
  "shape2 r c a = (length a = r \<and> (\<forall>x \<in> set a. length x = c))"

definition shape4 :: "nat \<Rightarrow> nat \<Rightarrow> 'a list list list list \<Rightarrow> bool" where
  "shape4 L S a = (shape2 L L a \<and> (\<forall>p \<in> set a. \<forall>b \<in> set p. shape2 S S b))"

text \<open>The array \<open>a\<close> is in the store at the address \<open>r\<close>.\<close>

definition holds :: "world \<Rightarrow> ref \<Rightarrow> ndarray \<Rightarrow> bool" where
  "holds w r a = (r < length (heap w) \<and> heap w ! r = a)"

text \<open>The pairs that the two loops visit, in the order of the visits.\<close>

definition upper_pairs :: "nat \<Rightarrow> (nat \<times> nat) list" where
  "upper_pairs L = concat (map (\<lambda>i. map (Pair i) [i + 1..<L]) [0..<L - 1])"

definition lex_less :: "nat \<times> nat \<Rightarrow> nat \<times> nat \<Rightarrow> bool" where
  "lex_less p q = (fst p < fst q \<or> (fst p = fst q \<and> snd p < snd q))"

definition block20 :: "arr4 \<Rightarrow> nat \<Rightarrow> nat \<Rightarrow> arr1" where
  "block20 a i j = concat (map (take 20) (take 20 (a ! i ! j)))"

text \<open>The value of \<open>Nij\<close> for the counts \<open>c\<close>.\<close>

definition Nij_of :: "arr4 \<Rightarrow> arr2" where
  "Nij_of c = sum3_sum2 (map (map (\<lambda>block. map (take 20) (take 20 block))) c)"

text \<open>The row of \<open>model_prob\<close> for a pair, and all rows.\<close>

definition model_row :: "arr4 \<Rightarrow> arr4 \<Rightarrow> fl \<Rightarrow> arr2 \<Rightarrow> nat \<times> nat \<Rightarrow> arr1" where
  "model_row pf xp lam Nij p =
     map2 fsub (block20 pf (fst p) (snd p))
       (map (\<lambda>x. fdiv (fmul x lam) (Nij ! fst p ! snd p)) (block20 xp (fst p) (snd p)))"

definition model_rows :: "arr4 \<Rightarrow> arr4 \<Rightarrow> fl \<Rightarrow> arr2 \<Rightarrow> nat \<Rightarrow> arr2" where
  "model_rows pf xp lam Nij L = map (model_row pf xp lam Nij) (upper_pairs L)"

definition clamp0 :: "fl \<Rightarrow> fl" where
  "clamp0 q = (if negative q then Fin 0 else q)"

text \<open>The target can be entered: a stream, or a file name that can be opened. The
  handle that the body of \<open>write_msgpack\<close> then writes to.\<close>

definition openable :: "target \<Rightarrow> world \<Rightarrow> bool" where
  "openable f w = (case f of Path p \<Rightarrow> p \<notin> set (unopenable w) | Stream s \<Rightarrow> True)"

definition handle_of :: "target \<Rightarrow> world \<Rightarrow> nat" where
  "handle_of f w = (case f of Path p \<Rightarrow> length (files w) | Stream s \<Rightarrow> s)"

text \<open>The two warnings.\<close>

definition neg_warning :: "fl list \<Rightarrow> message list" where
  "neg_warning qs =
     (if \<exists>q \<in> set qs. negative q then [NegativeWarning (length (filter negative qs))] else [])"

definition nan_warning :: "arr2 \<Rightarrow> message" where
  "nan_warning rows = NanWarning (map (\<lambda>c. length (filter (\<lambda>r. isnan (r ! c)) rows)) [0..<400])"

text \<open>The world in which the body of \<open>write_msgpack\<close> starts for a target that can be
  entered, and the world that the wrapper makes of the one the body ends in.\<close>

definition entered :: "target \<Rightarrow> world \<Rightarrow> world" where
  "entered f w =
     (case f of
        Path p \<Rightarrow> w\<lparr>files := files w @
          [\<lparr>fpath = p, fmode = ''wb'', gzipped = endswith p ''.gz'', fclosed = False,
            written = []\<rparr>]\<rparr>
      | Stream s \<Rightarrow> w)"

definition leave :: "target \<Rightarrow> nat \<Rightarrow> world \<Rightarrow> world" where
  "leave f fh w = (case f of Path p \<Rightarrow> close fh w | Stream s \<Rightarrow> w)"

text \<open>The order of the cells below the diagonal in the words of the specification:
  the rows from the largest index downward, in each row the columns before the
  diagonal.\<close>

definition tril_rows_downward :: "nat \<Rightarrow> (nat \<times> nat) list" where
  "tril_rows_downward n = concat (map (\<lambda>i. map (Pair i) [0..<i]) (rev [0..<n]))"

text \<open>The rows of \<open>model_prob\<close> for constant arrays of frequencies and potentials and
  \<open>lambda_pair = 1\<close>.\<close>

definition uniform_rows :: "nat \<Rightarrow> fl \<Rightarrow> fl \<Rightarrow> arr2 \<Rightarrow> arr2" where
  "uniform_rows L c x Nij =
     map (\<lambda>p. replicate 400 (fsub c (fdiv (fmul x (Fin 1)) (Nij ! fst p ! snd p))))
       (upper_pairs L)"

section \<open>Facts about runs\<close>

lemma enter_ok: "\<not> raises e s \<Longrightarrow> enter e s tr = Inr (tr @ [s])"
  by (simp add: enter_def)

lemma enter_all_ok: "\<forall>s. \<not> raises e s \<Longrightarrow> enter_all e ss tr = Inr (tr @ ss)"
  by (induction ss arbitrary: tr) (simp_all add: enter_ok andthen_def)

lemma andthen_simps [simp]:
  "andthen (Inl x) f = Inl x" "andthen (Inr tr) f = f tr"
  by (simp_all add: andthen_def)

lemma main_body_ok:
  assumes "\<forall>s. \<not> raises e s"
  shows "main_body e a [] =
     (let t1 = (if logo a then [PrintLogo] else [])
               @ [SetThreads, NewCCMpred, SetAlignmentFile, SetMatfile, SetPdbFile,
                  SetInitrawFile, ReadAlignment, ComputeSequenceWeights, ComputeFrequencies]
               @ (if truthy (pdbfile a) then [ReadPdb] else [])
      in if omes a then Inl (Exit 0, t1 @ [ComputeOmes, WriteMatrix])
         else if mi a then Inl (Exit 0, t1 @ [ComputeMutualInfo, WriteMatrix])
         else Inl (Exit (if optimize a \<and> algret_code e < 0 then - algret_code e else 0),
                t1 @ [SpecifyRegularization, IntialisePotentials]
                @ (if optimize a then [NewProgress, NewObjfun, NewAlgorithm, Minimize]
                   else [PrintDoNotOptimize])
                @ (if truthy (matfile a)
                   then [ComputeContactMatrix, ComputeCorrection, WriteMatrix] else [])
                @ (if truthy (out_binary_raw_file a) then [WriteBinaryRaw] else [])))"
  using assms
  by (simp add: main_body_def guarded_def sys_exit_def enter_ok enter_all_ok Let_def)

lemma trace_enter: "set tr \<subseteq> S \<Longrightarrow> s \<in> S \<Longrightarrow> set (trace_of (enter e s tr)) \<subseteq> S"
  by (simp add: enter_def trace_of_def)

lemma trace_andthen:
  assumes "set (trace_of r) \<subseteq> S"
    and "\<And>tr. r = Inr tr \<Longrightarrow> set tr \<subseteq> S \<Longrightarrow> set (trace_of (f tr)) \<subseteq> S"
  shows "set (trace_of (andthen r f)) \<subseteq> S"
  using assms by (cases r) (simp_all add: trace_of_def)

lemma trace_enter_all:
  "set tr \<subseteq> S \<Longrightarrow> set ss \<subseteq> S \<Longrightarrow> set (trace_of (enter_all e ss tr)) \<subseteq> S"
proof (induction ss arbitrary: tr)
  case Nil
  then show ?case by (simp add: trace_of_def)
next
  case (Cons s ss)
  show ?case
    unfolding enter_all.simps
  proof (rule trace_andthen)
    show "set (trace_of (enter e s tr)) \<subseteq> S"
      using Cons.prems by (simp add: trace_enter)
  next
    fix tr' assume "set tr' \<subseteq> S"
    then show "set (trace_of (enter_all e ss tr')) \<subseteq> S"
      using Cons.prems by (simp add: Cons.IH)
  qed
qed

lemma trace_guarded:
  "set tr \<subseteq> S \<Longrightarrow> set (trace_of (f tr)) \<subseteq> S \<Longrightarrow> set (trace_of (guarded b f tr)) \<subseteq> S"
  by (simp add: guarded_def trace_of_def)

lemma trace_sys_exit: "set tr \<subseteq> S \<Longrightarrow> set (trace_of (sys_exit n tr)) \<subseteq> S"
  by (simp add: sys_exit_def trace_of_def)

lemma block_stops: "andthen r (sys_exit n) \<noteq> Inr tr'"
  by (cases r) (simp_all add: sys_exit_def)

lemma main_body_scores:
  assumes "omes a \<or> mi a"
  shows "set (trace_of (main_body e a [])) \<subseteq> score_stages"
  unfolding main_body_def
  apply (intro trace_andthen trace_guarded trace_enter_all trace_enter trace_sys_exit)
  using assms
                      apply (auto simp: score_stages_def guarded_def block_stops simp del: enter_all.simps)
  done

lemma snd_main: "snd (main e a) = (case parse_args a of Inl u \<Rightarrow> [] | Inr b \<Rightarrow> trace_of (main_body e b []))"
  by (simp add: main_def trace_of_def split: sum.splits)

section \<open>Rejected pairings of objective and optimizer\<close>

text \<open>
  C8. A command line that selects the pseudo-likelihood with an optimizer other than
  conjugate gradients, L-BFGS or numerical differentiation, or contrastive divergence
  with an optimizer other than gradient descent or Adam, ends in a usage error of
  \<open>parse_args\<close>; \<open>main\<close> has then entered no stage at all, in particular it has read no
  alignment and computed no frequencies.
\<close>

theorem invalid_pairing_rejected:
  assumes "(objfun a = PLL \<and> algorithm a \<notin> {CG, LBFGS, ND})
         \<or> (objfun a = CD \<and> algorithm a \<notin> {GD, ADAM})"
  shows "\<exists>u. parse_args a = Inl u \<and> main e a = (Usage u, [])
           \<and> exit_status (fst (main e a)) = 2
           \<and> ReadAlignment \<notin> set (snd (main e a))
           \<and> ComputeFrequencies \<notin> set (snd (main e a))"
  using assms by (auto simp: parse_args_def main_def)

theorem invalid_pairing_rejected_witness:
  "objfun args_pll_gd = PLL \<and> algorithm args_pll_gd \<notin> {CG, LBFGS, ND}
   \<and> main (env_ok 0) args_pll_gd = (Usage PllNeedsCgOrLbfgs, [])"
  using invalid_pairing_rejected [of args_pll_gd "env_ok 0"]
  by (simp add: args_pll_gd_def args_default_def parse_args_def)

section \<open>The exit status\<close>

text \<open>
  C7, as stated: every run without an optimization failure, and in particular every run
  with \<open>--do-not-optimize\<close>, leaves with status 0, and a run whose optimizer reports
  \<open>c < 0\<close> leaves with status \<open>- c\<close>. The run with \<open>--do-not-optimize\<close> and no \<open>-i\<close> never
  reaches the optimizer and leaves with status 2. The run whose optimizer reports
  \<open>- 256\<close> calls \<open>sys.exit(256)\<close>, of which the status keeps the eight bits 0.
\<close>

theorem exit_zero_counterexample:
  "\<not> optimize args_do_not_optimize
   \<and> Minimize \<notin> set (snd (main (env_ok 0) args_do_not_optimize))
   \<and> exit_status (fst (main (env_ok 0) args_do_not_optimize)) = 2
   \<and> Minimize \<in> set (snd (main (env_ok (- 256)) args_default))
   \<and> fst (main (env_ok (- 256)) args_default) = Exit 256
   \<and> exit_status (fst (main (env_ok (- 256)) args_default)) = 0"
proof -
  have a: "parse_args args_default = Inr args_default"
    by (simp add: parse_args_def args_default_def)
  have b: "\<forall>s. \<not> raises (env_ok (- 256)) s"
    by (simp add: env_ok_def)
  have c: "Minimize \<in> set (snd (main (env_ok (- 256)) args_default))"
    by (simp add: main_def a main_body_ok [OF b] Let_def) (simp add: args_default_def)
  have d: "fst (main (env_ok (- 256)) args_default) = Exit 256"
    by (simp add: main_def a main_body_ok [OF b] Let_def) (simp add: args_default_def env_ok_def)
  have e: "\<not> optimize args_do_not_optimize
      \<and> Minimize \<notin> set (snd (main (env_ok 0) args_do_not_optimize))
      \<and> exit_status (fst (main (env_ok 0) args_do_not_optimize)) = 2"
    by (simp add: args_do_not_optimize_def args_default_def main_def parse_args_def truthy_def)
  from c d e show ?thesis
    by simp
qed

text \<open>
  C7, amended. When \<open>parse_args\<close> accepts the command line and no stage raises, \<open>main\<close>
  ends in \<open>sys.exit(- c)\<close> if the optimizer ran and reported a code \<open>c < 0\<close>, and in
  \<open>sys.exit(0)\<close> otherwise. For a code that fits a machine integer the exit status is then
  \<open>(- c) mod 256\<close>, which is \<open>- c\<close> itself for \<open>- 256 < c < 0\<close>, and 0 otherwise; it is 0
  for every such run with \<open>--do-not-optimize\<close>.
\<close>

theorem exit_status_contract:
  assumes "parse_args a = Inr a" and "\<forall>s. \<not> raises e s" and "- (2 ^ 31) < algret_code e"
  shows "fst (main e a)
           = Exit (if Minimize \<in> set (snd (main e a)) \<and> algret_code e < 0
                   then - algret_code e else 0)
       \<and> exit_status (fst (main e a))
           = (if Minimize \<in> set (snd (main e a)) \<and> algret_code e < 0
              then (- algret_code e) mod 256 else 0)
       \<and> (Minimize \<in> set (snd (main e a)) \<and> - 256 < algret_code e \<and> algret_code e < 0
            \<longrightarrow> exit_status (fst (main e a)) = - algret_code e)
       \<and> (\<not> optimize a \<longrightarrow> exit_status (fst (main e a)) = 0)"
  using assms by (simp add: main_def main_body_ok Let_def)

theorem exit_status_contract_witness:
  "parse_args args_default = Inr args_default \<and> (\<forall>s. \<not> raises (env_ok (- 3)) s)
   \<and> - (2 ^ 31) < algret_code (env_ok (- 3))
   \<and> Minimize \<in> set (snd (main (env_ok (- 3)) args_default))
   \<and> - 256 < algret_code (env_ok (- 3)) \<and> algret_code (env_ok (- 3)) < 0
   \<and> exit_status (fst (main (env_ok (- 3)) args_default)) = 3"
proof -
  have a: "parse_args args_default = Inr args_default"
    by (simp add: parse_args_def args_default_def)
  have b: "\<forall>s. \<not> raises (env_ok (- 3)) s"
    by (simp add: env_ok_def)
  have c: "Minimize \<in> set (snd (main (env_ok (- 3)) args_default))"
    by (simp add: main_def a main_body_ok [OF b] Let_def) (simp add: args_default_def)
  have d: "algret_code (env_ok (- 3)) = - 3"
    by (simp add: env_ok_def)
  have d': "- (2 ^ 31) < algret_code (env_ok (- 3))"
    by (simp add: env_ok_def)
  from exit_status_contract [OF a b d'] c d
  have "exit_status (fst (main (env_ok (- 3)) args_default)) = 3"
    by simp
  with a b c d d' show ?thesis
    by simp
qed

section \<open>Alternative coevolution scores\<close>

text \<open>
  C10, as stated: every command line with \<open>--compute-omes\<close> makes \<open>main\<close> write the score
  matrix and leave with status 0. With \<open>--compute-omes --alg-gd\<close> the pairing check of
  \<open>parse_args\<close> ends the run first: nothing is written and the status is 2.
\<close>

theorem alternative_scores_counterexample:
  "omes args_omes_gd
   \<and> WriteMatrix \<notin> set (snd (main (env_ok 0) args_omes_gd))
   \<and> exit_status (fst (main (env_ok 0) args_omes_gd)) = 2"
  by (simp add: args_omes_gd_def args_default_def main_def parse_args_def)

text \<open>
  C10, amended. With \<open>--compute-omes\<close> or \<open>--compute-mi\<close> set, \<open>main\<close> never sets up the
  regularization, never initialises potentials and never builds or runs an optimizer.
  When moreover \<open>parse_args\<close> accepts the command line and no stage raises, the run is
  exactly: the stages up to the frequencies, the PDB file if one was given, the score
  (OMES if both are requested), the matrix, and \<open>sys.exit(0)\<close>.
\<close>

theorem alternative_scores_exit:
  assumes "omes a \<or> mi a"
  shows "SpecifyRegularization \<notin> set (snd (main e a))
       \<and> IntialisePotentials \<notin> set (snd (main e a))
       \<and> NewObjfun \<notin> set (snd (main e a))
       \<and> NewAlgorithm \<notin> set (snd (main e a))
       \<and> Minimize \<notin> set (snd (main e a))
       \<and> (parse_args a = Inr a \<and> (\<forall>s. \<not> raises e s) \<longrightarrow>
            main e a =
              (Exit 0,
               (if logo a then [PrintLogo] else [])
               @ [SetThreads, NewCCMpred, SetAlignmentFile, SetMatfile, SetPdbFile,
                  SetInitrawFile, ReadAlignment, ComputeSequenceWeights, ComputeFrequencies]
               @ (if truthy (pdbfile a) then [ReadPdb] else [])
               @ [if omes a then ComputeOmes else ComputeMutualInfo, WriteMatrix]))"
proof -
  have "set (snd (main e a)) \<subseteq> score_stages"
    using main_body_scores [OF assms, of e]
    by (simp add: snd_main parse_args_def)
  then have never: "SpecifyRegularization \<notin> set (snd (main e a))
       \<and> IntialisePotentials \<notin> set (snd (main e a))
       \<and> NewObjfun \<notin> set (snd (main e a))
       \<and> NewAlgorithm \<notin> set (snd (main e a))
       \<and> Minimize \<notin> set (snd (main e a))"
    by (auto simp: score_stages_def)
  have "main e a =
          (Exit 0,
           (if logo a then [PrintLogo] else [])
           @ [SetThreads, NewCCMpred, SetAlignmentFile, SetMatfile, SetPdbFile,
              SetInitrawFile, ReadAlignment, ComputeSequenceWeights, ComputeFrequencies]
           @ (if truthy (pdbfile a) then [ReadPdb] else [])
           @ [if omes a then ComputeOmes else ComputeMutualInfo, WriteMatrix])"
    if "parse_args a = Inr a" and "\<forall>s. \<not> raises e s"
    using that assms by (auto simp: main_def main_body_ok Let_def)
  with never show ?thesis
    by blast
qed

theorem alternative_scores_exit_witness:
  "omes args_omes \<and> parse_args args_omes = Inr args_omes \<and> (\<forall>s. \<not> raises (env_ok 0) s)
   \<and> main (env_ok 0) args_omes =
       (Exit 0, [PrintLogo, SetThreads, NewCCMpred, SetAlignmentFile, SetMatfile, SetPdbFile,
                 SetInitrawFile, ReadAlignment, ComputeSequenceWeights, ComputeFrequencies,
                 ComputeOmes, WriteMatrix])"
proof -
  have a: "omes args_omes \<or> mi args_omes"
    by (simp add: args_omes_def)
  have b: "parse_args args_omes = Inr args_omes"
    by (simp add: parse_args_def args_omes_def args_default_def)
  have c: "\<forall>s. \<not> raises (env_ok 0) s"
    by (simp add: env_ok_def)
  show ?thesis
    using alternative_scores_exit [OF a, of "env_ok 0"] b c
    by (simp add: args_omes_def args_default_def truthy_def)
qed

section \<open>Statements\<close>

lemma then_do_ret [simp]: "then_do (ret x) f = f x"
  by (simp add: then_do_def ret_def fun_eq_iff)

lemma then_do_lift_Inr [simp]: "then_do (lift (Inr x)) f = f x"
  by (simp add: then_do_def lift_def fun_eq_iff)

lemma then_do_lift_Inl [simp]: "then_do (lift (Inl e)) f = lift (Inl e)"
  by (simp add: then_do_def lift_def fun_eq_iff)

lemma then_do_Inr: "m w = (Inr x, w') \<Longrightarrow> then_do m f w = f x w'"
  by (simp add: then_do_def)

lemma then_do_Inl: "m w = (Inl e, w') \<Longrightarrow> then_do m f w = (Inl e, w')"
  by (simp add: then_do_def)

subsection \<open>Frames\<close>

lemma frame_same: "(\<And>w. snd (m w) = w) \<Longrightarrow> frame n fh m"
  by (simp add: frame_def)

lemma frame_ret: "frame n fh (ret x)"
  by (rule frame_same) (simp add: ret_def)

lemma frame_lift: "frame n fh (lift r)"
  by (rule frame_same) (simp add: lift_def)

lemma frame_get_f1: "frame n fh (get_f1 r)"
  by (rule frame_same) (simp add: get_f1_def split: ndarray.splits)

lemma frame_get_f2: "frame n fh (get_f2 r)"
  by (rule frame_same) (simp add: get_f2_def split: ndarray.splits)

lemma frame_get_f4: "frame n fh (get_f4 r)"
  by (rule frame_same) (simp add: get_f4_def split: ndarray.splits)

lemma frame_get_i2: "frame n fh (get_i2 r)"
  by (rule frame_same) (simp add: get_i2_def split: ndarray.splits)

lemma frame_alloc: "frame n fh (alloc a)"
  by (simp add: frame_def alloc_def)

lemma frame_put: "n \<le> r \<Longrightarrow> frame n fh (put r a)"
  by (simp add: frame_def put_def)

lemma frame_py_print: "frame n fh (py_print m)"
  by (simp add: frame_def py_print_def)

lemma frame_file_write: "frame n fh (file_write fh c)"
  by (simp add: frame_def file_write_def)

lemma frame_then_do:
  assumes m: "frame n fh m" and f: "\<And>x. frame n fh (f x)"
  shows "frame n fh (then_do m f)"
  unfolding frame_def
proof (intro allI impI)
  fix w :: world
  assume n: "n \<le> length (heap w)"
  obtain r w' where mw: "m w = (r, w')"
    by (cases "m w")
  from m n mw have 1: "n \<le> length (heap w')" "take n (heap w') = take n (heap w)"
    "length (files w) \<le> length (files w')"
    "\<forall>h<length (files w). h \<noteq> fh \<longrightarrow> files w' ! h = files w ! h"
    by (auto simp: frame_def dest!: spec [where x = w])
  show "n \<le> length (heap (snd (then_do m f w)))
        \<and> take n (heap (snd (then_do m f w))) = take n (heap w)
        \<and> length (files w) \<le> length (files (snd (then_do m f w)))
        \<and> (\<forall>h<length (files w). h \<noteq> fh \<longrightarrow> files (snd (then_do m f w)) ! h = files w ! h)"
  proof (cases r)
    case (Inl e)
    with mw 1 show ?thesis
      by (simp add: then_do_def)
  next
    case (Inr x)
    from f [of x] 1(1) have 2: "n \<le> length (heap (snd (f x w')))"
      "take n (heap (snd (f x w'))) = take n (heap w')"
      "length (files w') \<le> length (files (snd (f x w')))"
      "\<forall>h<length (files w'). h \<noteq> fh \<longrightarrow> files (snd (f x w')) ! h = files w' ! h"
      by (auto simp: frame_def dest!: spec [where x = w'])
    from Inr mw have "then_do m f w = f x w'"
      by (simp add: then_do_def)
    with 1 2 show ?thesis
      by auto
  qed
qed

lemma frame_then_do_fresh:
  assumes m: "frame n fh m" and fr: "fresh n m" and f: "\<And>x. n \<le> x \<Longrightarrow> frame n fh (f x)"
  shows "frame n fh (then_do m f)"
proof -
  let ?g = "\<lambda>x. if n \<le> x then f x else lift (Inl TypeError)"
  have g: "frame n fh (then_do m ?g)"
    by (rule frame_then_do [OF m]) (simp add: f frame_lift)
  have "then_do m f w = then_do m ?g w" if "n \<le> length (heap w)" for w
    using fr that by (auto simp: fresh_def then_do_def split: prod.splits sum.splits)
  with g show ?thesis
    by (simp add: frame_def)
qed

lemma frame_for_loop:
  assumes "\<And>x s. frame n fh (body x s)"
  shows "frame n fh (for_loop xs body s)"
  by (induction xs arbitrary: s) (simp_all add: frame_ret frame_then_do assms)

lemma fresh_alloc: "fresh n (alloc a)"
  by (simp add: fresh_def alloc_def)

lemma fresh_np_zeros: "fresh n (np_zeros r c)"
  by (cases r) (simp_all add: np_zeros_def fresh_alloc, simp add: fresh_def lift_def)

lemma fresh_flatten: "fresh n (flatten a)"
  by (auto simp: fresh_def flatten_def then_do_def get_f2_def alloc_def
      split: prod.splits sum.splits ndarray.splits if_splits)

lemma frame_np_zeros: "frame n fh (np_zeros r c)"
  by (cases r) (simp_all add: np_zeros_def frame_alloc frame_lift)

lemma frame_divide: "frame n fh (divide a b)"
  by (simp add: frame_def divide_def split: interpreter.splits)

lemma frame_flatten: "frame n fh (flatten a)"
  unfolding flatten_def by (intro frame_then_do frame_get_f2 frame_alloc)

lemma frame_setitem_row: "n \<le> a \<Longrightarrow> frame n fh (setitem_row a k v)"
  unfolding setitem_row_def
  by (intro frame_then_do frame_get_f2) (simp add: frame_put frame_lift)

lemma frame_setitem_mask: "n \<le> a \<Longrightarrow> frame n fh (setitem_mask a m v)"
  unfolding setitem_mask_def
  by (intro frame_then_do frame_get_f1) (simp add: frame_put frame_lift split: index_mask.splits)

lemma frame_calculate_Nij: "frame n fh (calculate_Nij cm msa weights)"
  unfolding calculate_Nij_def Let_def
  by (intro frame_then_do frame_get_i2 frame_get_f1 frame_ret)

lemma frame_pair_step:
  "n \<le> model_prob \<Longrightarrow> frame n fh (pair_step res pair_freq lambda_pair Nij model_prob i j index)"
  unfolding pair_step_def
  by (intro frame_then_do frame_get_f4 frame_lift frame_ret frame_setitem_row)

lemma frame_fill_model_prob:
  "n \<le> model_prob \<Longrightarrow> frame n fh (fill_model_prob res pair_freq lambda_pair Nij model_prob)"
  unfolding fill_model_prob_def
  by (intro frame_for_loop frame_pair_step)

lemma frame_clamp_negative: "n \<le> a \<Longrightarrow> frame n fh (clamp_negative a)"
  unfolding clamp_negative_def
  by (intro frame_then_do frame_get_f1)
     (simp add: frame_ret frame_then_do frame_py_print frame_setitem_mask)

lemma frame_clamp_nan: "n \<le> a \<Longrightarrow> frame n fh (clamp_nan b a)"
  unfolding clamp_nan_def
  by (intro frame_then_do frame_get_f1)
     (simp add: frame_ret frame_then_do frame_py_print frame_setitem_mask frame_get_f2)

lemma frame_write_msgpack_body:
  "frame n fh (write_msgpack_body cm fh res msa weights pair_freq lambda_pair)"
  unfolding write_msgpack_body_def
  apply (rule frame_then_do [OF frame_calculate_Nij])
  apply (rule frame_then_do [OF frame_lift])
  apply (rule frame_then_do [OF frame_divide])
  apply (rule frame_then_do_fresh [OF frame_np_zeros fresh_np_zeros])
  apply (rule frame_then_do [OF frame_fill_model_prob], assumption)
  apply (rule frame_then_do_fresh [OF frame_flatten fresh_flatten])
  apply (rule frame_then_do [OF frame_clamp_negative], assumption)
  apply (rule frame_then_do [OF frame_clamp_nan], assumption)
  apply (rule frame_then_do [OF frame_get_f1])
  apply (rule frame_file_write)
  done

lemma frameD:
  assumes "frame n fh m" and "n \<le> length (heap w)"
  shows "n \<le> length (heap (snd (m w)))"
    and "take n (heap (snd (m w))) = take n (heap w)"
    and "length (files w) \<le> length (files (snd (m w)))"
    and "\<And>h. h < length (files w) \<Longrightarrow> h \<noteq> fh \<Longrightarrow> files (snd (m w)) ! h = files w ! h"
  using assms by (auto simp: frame_def)

lemma heap_close [simp]: "heap (close fh w) = heap w"
  by (simp add: close_def)

lemma files_close_other: "h \<noteq> fh \<Longrightarrow> files (close fh w) ! h = files w ! h"
  by (simp add: close_def)

lemma not_open_close [simp]: "\<not> is_open fh (close fh w)"
  by (simp add: is_open_def close_def)

section \<open>The wrapper \<open>stream_or_file\<close>\<close>

text \<open>
  C6. Called with the name of a file that can be opened, the wrapper opens a handle, with
  \<open>gzip.open\<close> exactly when the name ends in \<open>.gz\<close>, calls the function on that handle,
  closes the handle whatever the function returned or raised, and hands on the result of
  the function. Called with an open stream, it is the function on that stream and
  nothing else, so it does not close the stream.
\<close>

theorem stream_or_file_closes:
  assumes "p \<notin> set (unopenable w)"
  shows "(\<exists>fh w1. open_fn (if endswith p ''.gz'' then Gzip else Plain) p mode w = (Inr fh, w1)
            \<and> is_open fh w1
            \<and> fpath (files w1 ! fh) = p \<and> fmode (files w1 ! fh) = mode
            \<and> gzipped (files w1 ! fh) = endswith p ''.gz''
            \<and> stream_or_file mode fn (Path p) w = (fst (fn fh w1), close fh (snd (fn fh w1)))
            \<and> \<not> is_open fh (snd (stream_or_file mode fn (Path p) w)))
       \<and> stream_or_file mode fn (Stream s) w = fn s w"
proof -
  define opn where "opn = (if endswith p ''.gz'' then Gzip else Plain)"
  define fh where "fh = length (files w)"
  define w1 where "w1 = w\<lparr>files := files w @
      [\<lparr>fpath = p, fmode = mode, gzipped = (opn = Gzip), fclosed = False, written = []\<rparr>]\<rparr>"
  have o: "open_fn opn p mode w = (Inr fh, w1)"
    using assms by (simp add: open_fn_def fh_def w1_def)
  have 1: "is_open fh w1" "fpath (files w1 ! fh) = p" "fmode (files w1 ! fh) = mode"
    "gzipped (files w1 ! fh) = endswith p ''.gz''"
    by (simp_all add: is_open_def fh_def w1_def opn_def)
  have "(if endswith p ''.gz'' then open_fn Gzip else open_fn Plain) = open_fn opn"
    by (simp add: opn_def)
  then have 2: "stream_or_file mode fn (Path p) w = (fst (fn fh w1), close fh (snd (fn fh w1)))"
    by (simp add: stream_or_file_def o split: prod.splits)
  then have 3: "\<not> is_open fh (snd (stream_or_file mode fn (Path p) w))"
    by simp
  have 4: "stream_or_file mode fn (Stream s) w = fn s w"
    by (simp add: stream_or_file_def)
  from o 1 2 3 4 show ?thesis
    unfolding opn_def by blast
qed

theorem stream_or_file_closes_witness:
  "''out.gz'' \<notin> set (unopenable (world2 (Fin 0)))
   \<and> fst (stream_or_file ''wb'' (\<lambda>fh. lift (Inl IOError)) (Path ''out.gz'') (world2 (Fin 0)))
       = (Inl IOError :: error + unit)
   \<and> \<not> is_open 1 (snd (stream_or_file ''wb'' (\<lambda>fh. lift (Inl IOError :: error + unit))
                          (Path ''out.gz'') (world2 (Fin 0))))"
proof -
  have a: "''out.gz'' \<notin> set (unopenable (world2 (Fin 0)))"
    by (simp add: world2_def world_of_def)
  have b: "length (files (world2 (Fin 0))) = 1"
    by (simp add: world2_def world_of_def)
  from stream_or_file_closes [OF a, of "''wb''" "\<lambda>fh. lift (Inl IOError :: error + unit)"] a b
  show ?thesis
    by (auto simp: open_fn_def lift_def)
qed

section \<open>What \<open>write_msgpack\<close> leaves alone\<close>

text \<open>
  C9. A call of \<open>write_msgpack\<close>, whether it returns or raises, leaves every array that
  was in the store before the call as it was: the potentials, the pair frequencies, the
  alignment and the weights among them. Of the files that were there before the call it
  changes at most the stream it was given.
\<close>

theorem write_msgpack_frame:
  "(\<forall>r<length (heap w).
      heap (snd (write_msgpack cm f res msa weights pair_freq lambda_pair w)) ! r = heap w ! r)
   \<and> (\<forall>h<length (files w). f \<noteq> Stream h \<longrightarrow>
      files (snd (write_msgpack cm f res msa weights pair_freq lambda_pair w)) ! h = files w ! h)"
proof -
  let ?body = "\<lambda>fh. write_msgpack_body cm fh res msa weights pair_freq lambda_pair"
  let ?w' = "snd (write_msgpack cm f res msa weights pair_freq lambda_pair w)"
  have "length (heap w) \<le> length (heap ?w') \<and> take (length (heap w)) (heap ?w') = heap w
        \<and> (\<forall>h<length (files w). f \<noteq> Stream h \<longrightarrow> files ?w' ! h = files w ! h)"
  proof (cases f)
    case (Stream s)
    have fr: "frame (length (heap w)) s (?body s)"
      by (rule frame_write_msgpack_body)
    from frameD [OF fr, of w] Stream show ?thesis
      by (auto simp: write_msgpack_def stream_or_file_def)
  next
    case (Path p)
    show ?thesis
    proof (cases "p \<in> set (unopenable w)")
      case True
      with Path show ?thesis
        by (simp add: write_msgpack_def stream_or_file_def open_fn_def)
    next
      case False
      define fh where "fh = length (files w)"
      define w1 where "w1 = w\<lparr>files := files w @
          [\<lparr>fpath = p, fmode = ''wb'', gzipped = endswith p ''.gz'', fclosed = False,
            written = []\<rparr>]\<rparr>"
      have w': "?w' = close fh (snd (?body fh w1))"
        using Path False
        by (simp add: write_msgpack_def stream_or_file_def open_fn_def fh_def w1_def Let_def
            split: prod.splits)
      have fr: "frame (length (heap w)) fh (?body fh)"
        by (rule frame_write_msgpack_body)
      have h1: "heap w1 = heap w" and f1: "length (files w1) = Suc (length (files w))"
        and f2: "\<And>h. h < length (files w) \<Longrightarrow> files w1 ! h = files w ! h"
        by (simp_all add: w1_def nth_append)
      from frameD [OF fr, of w1] h1
      have a: "length (heap w) \<le> length (heap (snd (?body fh w1)))"
        "take (length (heap w)) (heap (snd (?body fh w1))) = heap w"
        "\<And>h. h < length (files w1) \<Longrightarrow> h \<noteq> fh \<Longrightarrow> files (snd (?body fh w1)) ! h = files w1 ! h"
        by simp_all
      have "files ?w' ! h = files w ! h" if "h < length (files w)" for h
      proof -
        from that have "h \<noteq> fh" "h < length (files w1)"
          by (simp_all add: fh_def f1)
        then show ?thesis
          using a(3) [of h] f2 [OF that] by (simp add: w' files_close_other)
      qed
      with a show ?thesis
        by (simp add: w')
    qed
  qed
  then have len: "length (heap w) \<le> length (heap ?w')"
    and tk: "take (length (heap w)) (heap ?w') = heap w"
    and fl: "\<forall>h<length (files w). f \<noteq> Stream h \<longrightarrow> files ?w' ! h = files w ! h"
    by simp_all
  have "heap ?w' ! r = heap w ! r" if "r < length (heap w)" for r
  proof -
    from that have "take (length (heap w)) (heap ?w') ! r = heap ?w' ! r"
      by simp
    with tk show ?thesis
      by simp
  qed
  with fl show ?thesis
    by blast
qed

theorem write_msgpack_frame_witness:
  "heap (snd (call 2 (world2 (Fin 0)))) ! 0 = I2 msa2
   \<and> heap (snd (call 2 (world2 (Fin 0)))) ! 1 = F1 [Fin 1]
   \<and> heap (snd (call 2 (world2 (Fin 0)))) ! 2 = F4 (full4 2 (Fin (1 / 441)))
   \<and> heap (snd (call 2 (world2 (Fin 0)))) ! 3 = F4 (full4 2 (Fin 0))"
  using write_msgpack_frame [of "world2 (Fin 0)" ccmpred_counts "Stream 0"
      "\<lparr>ncol = 2, x_pair = 3\<rparr>" 0 1 2 "Fin 1"]
  by (simp add: call_def world2_def world_of_def)

section \<open>Arrays\<close>

lemma concat_nth_uniform:
  "\<forall>r \<in> set xs. length r = n \<Longrightarrow> a < length xs \<Longrightarrow> b < n \<Longrightarrow>
   concat xs ! (a * n + b) = xs ! a ! b"
proof (induction xs arbitrary: a)
  case Nil
  then show ?case by simp
next
  case (Cons x xs)
  show ?case
  proof (cases a)
    case 0
    with Cons.prems show ?thesis
      by (simp add: nth_append)
  next
    case (Suc a')
    with Cons.prems have "concat xs ! (a' * n + b) = xs ! a' ! b"
      by (intro Cons.IH) simp_all
    moreover have "length x = n"
      using Cons.prems by simp
    ultimately show ?thesis
      using Suc by (simp add: nth_append)
  qed
qed

lemma length_concat_uniform:
  "\<forall>r \<in> set xs. length r = n \<Longrightarrow> length (concat xs) = length xs * n"
  by (induction xs) simp_all

lemma shape2D:
  assumes "shape2 r c a"
  shows "length a = r" and "\<And>i. i < r \<Longrightarrow> length (a ! i) = c"
  using assms by (auto simp: shape2_def)

lemma shape4D:
  assumes "shape4 L S a" and "i < L" and "j < L"
  shows "length a = L" and "length (a ! i) = L" and "shape2 S S (a ! i ! j)"
proof -
  from assms show 1: "length a = L"
    by (simp add: shape4_def shape2_def)
  with assms have 2: "a ! i \<in> set a"
    by simp
  with assms show 3: "length (a ! i) = L"
    by (simp add: shape4_def shape2_def)
  with assms have "a ! i ! j \<in> set (a ! i)"
    by simp
  with assms 2 show "shape2 S S (a ! i ! j)"
    unfolding shape4_def by blast
qed

lemma block20_shape:
  assumes "shape2 21 21 b"
  shows "length (concat (map (take 20) (take 20 b))) = 400"
    and "\<And>x y. x < 20 \<Longrightarrow> y < 20 \<Longrightarrow> concat (map (take 20) (take 20 b)) ! (x * 20 + y) = b ! x ! y"
proof -
  have u: "\<forall>r \<in> set (map (take 20) (take 20 b)). length r = 20"
    using assms by (auto simp: shape2_def dest!: in_set_takeD)
  have l: "length (map (take 20) (take 20 b)) = 20"
    using assms by (simp add: shape2_def)
  from length_concat_uniform [OF u] l
  show "length (concat (map (take 20) (take 20 b))) = 400"
    by simp
  fix x y :: nat
  assume "x < 20" "y < 20"
  with concat_nth_uniform [OF u, of x y] l
  show "concat (map (take 20) (take 20 b)) ! (x * 20 + y) = b ! x ! y"
    by simp
qed

lemma block20_length:
  "shape4 L 21 a \<Longrightarrow> i < L \<Longrightarrow> j < L \<Longrightarrow> length (block20 a i j) = 400"
  unfolding block20_def by (rule block20_shape) (rule shape4D)

lemma block20_nth:
  "shape4 L 21 a \<Longrightarrow> i < L \<Longrightarrow> j < L \<Longrightarrow> x < 20 \<Longrightarrow> y < 20 \<Longrightarrow>
   block20 a i j ! (x * 20 + y) = a ! i ! j ! x ! y"
  unfolding block20_def by (rule block20_shape) (rule shape4D)

lemma block_flat_ok:
  "shape4 L 21 a \<Longrightarrow> i < L \<Longrightarrow> j < L \<Longrightarrow> block_flat a i j = Inr (block20 a i j)"
  by (simp add: block_flat_def block20_def shape4D)

lemma Nij_of_shape: "shape4 L S c \<Longrightarrow> shape2 L L (Nij_of c)"
  by (auto simp: Nij_of_def sum3_sum2_def shape4_def shape2_def)

lemma Nij_of_nth:
  assumes "shape4 L S c" and "i < L" and "j < L"
  shows "Nij_of c ! i ! j = fsum (map (\<lambda>r. fsum (take 20 r)) (take 20 (c ! i ! j)))"
  using assms by (simp add: Nij_of_def sum3_sum2_def shape4D comp_def)

lemma getitem2_ok: "shape2 r c a \<Longrightarrow> i < r \<Longrightarrow> j < c \<Longrightarrow> getitem2 a i j = Inr (a ! i ! j)"
  by (simp add: getitem2_def shape2D)

lemma getitem_cells_ok:
  "shape2 r c a \<Longrightarrow> \<forall>p \<in> set ps. fst p < r \<and> snd p < c \<Longrightarrow>
   getitem_cells a ps = Inr (map (\<lambda>p. a ! fst p ! snd p) ps)"
  by (induction ps) (auto simp: getitem2_ok)

lemma set_tril_indices: "set (tril_indices n) = {(i, j). j < i \<and> i < n}"
  by (auto simp: tril_indices_def)

lemma in_Pair_image [simp]: "(i, j) \<in> Pair x ` S \<longleftrightarrow> x = i \<and> j \<in> S"
  by auto

lemma set_upper_pairs: "set (upper_pairs L) = {(i, j). i < j \<and> j < L}"
  by (auto simp: upper_pairs_def)

lemma sum_list_Suc: "sum_list (map (\<lambda>i. Suc (f i)) xs) = sum_list (map f xs) + length xs"
  by (induction xs) simp_all

lemma twice_sum_upt: "2 * sum_list [0..<n] = n * (n - 1)"
  by (induction n) (auto simp: algebra_simps)

lemma twice_sum_down: "2 * sum_list (map (\<lambda>i. n - i) [0..<n]) = n * (n + 1)"
proof (induction n)
  case 0
  then show ?case by simp
next
  case (Suc n)
  have "sum_list (map (\<lambda>i. Suc n - i) [0..<n]) = sum_list (map (\<lambda>i. Suc (n - i)) [0..<n])"
    by (intro arg_cong [where f = sum_list] map_cong) (auto simp: Suc_diff_le)
  also have "\<dots> = sum_list (map (\<lambda>i. n - i) [0..<n]) + n"
    using sum_list_Suc [of "\<lambda>i. n - i" "[0..<n]"] by simp
  finally show ?case
    using Suc by simp
qed

lemma length_tril_indices: "length (tril_indices n) = n * (n - 1) div 2"
proof -
  have "length (tril_indices n) = sum_list [0..<n]"
    by (simp add: tril_indices_def length_concat comp_def)
  with twice_sum_upt [of n] show ?thesis
    by simp
qed

lemma length_upper_pairs: "length (upper_pairs L) = L * (L - 1) div 2"
proof -
  have "length (upper_pairs L) = sum_list (map (\<lambda>i. L - Suc i) [0..<L - 1])"
    by (simp add: upper_pairs_def length_concat comp_def)
  also have "\<dots> = sum_list (map (\<lambda>i. (L - 1) - i) [0..<L - 1])"
    by (intro arg_cong [where f = sum_list] map_cong) auto
  finally have "length (upper_pairs L) = sum_list (map (\<lambda>i. (L - 1) - i) [0..<L - 1])" .
  with twice_sum_down [of "L - 1"] show ?thesis
    by (cases L) (simp_all add: mult.commute)
qed

lemma sorted_wrt_concat_map:
  assumes "\<And>x. x \<in> set xs \<Longrightarrow> sorted_wrt P (f x)"
    and "sorted_wrt (\<lambda>x y. \<forall>a \<in> set (f x). \<forall>b \<in> set (f y). P a b) xs"
  shows "sorted_wrt P (concat (map f xs))"
  using assms by (induction xs) (auto simp: sorted_wrt_append)

lemma sorted_upper_pairs: "sorted_wrt lex_less (upper_pairs L)"
  unfolding upper_pairs_def
proof (rule sorted_wrt_concat_map)
  fix i
  show "sorted_wrt lex_less (map (Pair i) [i + 1..<L])"
    by (simp add: sorted_wrt_map lex_less_def)
next
  have "sorted_wrt (<) [0..<L - 1]"
    by simp
  then show "sorted_wrt (\<lambda>x y. \<forall>a \<in> set (map (Pair x) [x + 1..<L]).
      \<forall>b \<in> set (map (Pair y) [y + 1..<L]). lex_less a b) [0..<L - 1]"
    by (rule sorted_wrt_mono_rel [rotated]) (auto simp: lex_less_def)
qed

lemma sorted_tril_indices: "sorted_wrt lex_less (tril_indices n)"
  unfolding tril_indices_def
proof (rule sorted_wrt_concat_map)
  fix i
  show "sorted_wrt lex_less (map (Pair i) [0..<i])"
    by (simp add: sorted_wrt_map lex_less_def)
next
  have "sorted_wrt (<) [0..<n]"
    by simp
  then show "sorted_wrt (\<lambda>x y. \<forall>a \<in> set (map (Pair x) [0..<x]).
      \<forall>b \<in> set (map (Pair y) [0..<y]). lex_less a b) [0..<n]"
    by (rule sorted_wrt_mono_rel [rotated]) (auto simp: lex_less_def)
qed

lemma model_row_length:
  "shape4 L 21 pf \<Longrightarrow> shape4 L 21 xp \<Longrightarrow> fst p < L \<Longrightarrow> snd p < L \<Longrightarrow>
   length (model_row pf xp lam Nij p) = 400"
  by (simp add: model_row_def block20_length)

lemma model_row_nth:
  assumes "shape4 L 21 pf" and "shape4 L 21 xp" and "i < L" and "j < L" and "a < 20" and "b < 20"
  shows "model_row pf xp lam Nij (i, j) ! (a * 20 + b)
         = fsub (pf ! i ! j ! a ! b) (fdiv (fmul (xp ! i ! j ! a ! b) lam) (Nij ! i ! j))"
proof -
  have "a * 20 + b < 400"
    using assms(5,6) by simp
  then show ?thesis
    using assms by (simp add: model_row_def block20_length block20_nth)
qed

section \<open>The loops of \<open>write_msgpack\<close>\<close>

lemma then_do_assoc: "then_do (then_do m f) g = then_do m (\<lambda>x. then_do (f x) g)"
  by (auto simp: then_do_def fun_eq_iff split: prod.splits sum.splits)

lemma for_loop_append:
  "for_loop (xs @ ys) body s = then_do (for_loop xs body s) (for_loop ys body)"
proof (induction xs arbitrary: s)
  case Nil
  show ?case by simp
next
  case (Cons x xs)
  have "for_loop (xs @ ys) body = (\<lambda>s. then_do (for_loop xs body s) (for_loop ys body))"
    by (rule ext) (rule Cons.IH)
  then show ?case
    by (simp add: then_do_assoc)
qed

lemma for_loop_map: "for_loop (map f xs) body s = for_loop xs (\<lambda>x. body (f x)) s"
proof (induction xs arbitrary: s)
  case Nil
  show ?case by simp
next
  case (Cons x xs)
  have "for_loop (map f xs) body = for_loop xs (\<lambda>x. body (f x))"
    by (rule ext) (rule Cons.IH)
  then show ?case
    by simp
qed

lemma for_loop_pairs:
  "for_loop ks (\<lambda>i. for_loop (js i) (body i)) s
   = for_loop (concat (map (\<lambda>i. map (Pair i) (js i)) ks)) (\<lambda>p. body (fst p) (snd p)) s"
proof (induction ks arbitrary: s)
  case Nil
  show ?case by simp
next
  case (Cons k ks)
  have "for_loop ks (\<lambda>i. for_loop (js i) (body i))
        = for_loop (concat (map (\<lambda>i. map (Pair i) (js i)) ks)) (\<lambda>p. body (fst p) (snd p))"
    by (rule ext) (rule Cons.IH)
  then show ?case
    by (simp add: for_loop_append for_loop_map)
qed

lemma get_f1_holds: "holds w r (F1 a) \<Longrightarrow> get_f1 r w = (Inr a, w)"
  by (simp add: holds_def get_f1_def)

lemma get_f2_holds: "holds w r (F2 a) \<Longrightarrow> get_f2 r w = (Inr a, w)"
  by (simp add: holds_def get_f2_def)

lemma get_f4_holds: "holds w r (F4 a) \<Longrightarrow> get_f4 r w = (Inr a, w)"
  by (simp add: holds_def get_f4_def)

lemma get_i2_holds: "holds w r (I2 a) \<Longrightarrow> get_i2 r w = (Inr a, w)"
  by (simp add: holds_def get_i2_def)

lemma holds_update_other:
  "holds w r a \<Longrightarrow> r \<noteq> r' \<Longrightarrow> holds (w\<lparr>heap := (heap w)[r' := b]\<rparr>) r a"
  by (simp add: holds_def)

lemma holds_update_same:
  "r < length (heap w) \<Longrightarrow> holds (w\<lparr>heap := (heap w)[r := b]\<rparr>) r b"
  by (simp add: holds_def)

lemma pair_step_ok:
  assumes pf: "holds w pair_freq (F4 pf)" and xp: "holds w (x_pair res) (F4 xp)"
    and mp: "holds w model_prob (F2 rows)"
    and sh: "shape4 L 21 pf" "shape4 L 21 xp" "shape2 L L Nij"
    and ij: "i < L" "j < L" and k: "k < length rows" "length (rows ! k) = 400"
  shows "pair_step res pair_freq lam Nij model_prob i j k w =
         (Inr (Suc k),
          w\<lparr>heap := (heap w)[model_prob := F2 (rows[k := model_row pf xp lam Nij (i, j)])]\<rparr>)"
proof -
  have len: "length (model_row pf xp lam Nij (i, j)) = 400"
    using sh ij by (simp add: model_row_length)
  have row: "elementwise fsub (block20 pf i j)
               (map (\<lambda>x. fdiv (fmul x lam) (Nij ! i ! j)) (block20 xp i j))
             = Inr (model_row pf xp lam Nij (i, j))"
    using sh ij by (simp add: elementwise_def model_row_def block20_length)
  have set: "setitem_row model_prob k (model_row pf xp lam Nij (i, j)) w =
             (Inr (), w\<lparr>heap := (heap w)[model_prob := F2 (rows[k := model_row pf xp lam Nij (i, j)])]\<rparr>)"
    using k len by (simp add: setitem_row_def then_do_def get_f2_holds [OF mp] put_def)
  show ?thesis
    using sh ij
    by (simp add: pair_step_def then_do_def get_f4_holds [OF pf] get_f4_holds [OF xp]
        lift_def block_flat_ok getitem2_ok row set ret_def)
qed

lemma for_loop_pair_steps:
  assumes "holds w pair_freq (F4 pf)" and "holds w (x_pair res) (F4 xp)"
    and "holds w model_prob (F2 rows)"
    and sh: "shape4 L 21 pf" "shape4 L 21 xp" "shape2 L L Nij"
    and "\<forall>p \<in> set ps. fst p < L \<and> snd p < L"
    and "k + length ps \<le> length rows"
    and "\<forall>r \<in> set rows. length r = 400"
  shows "for_loop ps (\<lambda>p. pair_step res pair_freq lam Nij model_prob (fst p) (snd p)) k w =
         (Inr (k + length ps),
          w\<lparr>heap := (heap w)[model_prob :=
               F2 (take k rows @ map (model_row pf xp lam Nij) ps @ drop (k + length ps) rows)]\<rparr>)"
  using assms(1,2,3,7,8,9)
proof (induction ps arbitrary: k w rows)
  case Nil
  then have "(heap w)[model_prob := F2 rows] = heap w"
    by (simp add: holds_def list_update_same_conv)
  then show ?case
    by (simp add: ret_def)
next
  case (Cons p ps)
  let ?row = "model_row pf xp lam Nij p"
  let ?rows = "rows[k := ?row]"
  let ?w = "w\<lparr>heap := (heap w)[model_prob := F2 ?rows]\<rparr>"
  from Cons.prems have k: "k < length rows" and p: "fst p < L" "snd p < L"
    by simp_all
  with Cons.prems have lk: "length (rows ! k) = 400"
    by simp
  have step: "pair_step res pair_freq lam Nij model_prob (fst p) (snd p) k w = (Inr (Suc k), ?w)"
    using pair_step_ok [OF Cons.prems(1,2,3) sh p k lk] by simp
  have ne: "pair_freq \<noteq> model_prob" "x_pair res \<noteq> model_prob"
    using Cons.prems(1,2,3) by (auto simp: holds_def)
  have h1: "holds ?w pair_freq (F4 pf)" "holds ?w (x_pair res) (F4 xp)"
    using Cons.prems(1,2) ne by (simp_all add: holds_update_other)
  have h2: "holds ?w model_prob (F2 ?rows)"
    using Cons.prems(3) by (simp add: holds_def)
  have len: "length ?row = 400"
    using sh p by (simp add: model_row_length)
  have all: "\<forall>r \<in> set ?rows. length r = 400"
    using Cons.prems(6) len by (auto dest!: set_update_subset_insert [THEN subsetD])
  have rest: "\<forall>q \<in> set ps. fst q < L \<and> snd q < L" "Suc k + length ps \<le> length ?rows"
    using Cons.prems by simp_all
  have tk: "take (Suc k) ?rows = take k rows @ [?row]"
    using k by (simp add: take_Suc_conv_app_nth)
  have dr: "drop (Suc k + length ps) ?rows = drop (Suc k + length ps) rows"
    by simp
  have "for_loop (p # ps) (\<lambda>p. pair_step res pair_freq lam Nij model_prob (fst p) (snd p)) k w
        = for_loop ps (\<lambda>p. pair_step res pair_freq lam Nij model_prob (fst p) (snd p)) (Suc k) ?w"
    by (simp add: then_do_def step)
  also have "\<dots> = (Inr (Suc k + length ps),
      ?w\<lparr>heap := (heap ?w)[model_prob :=
        F2 (take (Suc k) ?rows @ map (model_row pf xp lam Nij) ps @ drop (Suc k + length ps) ?rows)]\<rparr>)"
    by (rule Cons.IH [OF h1 h2 rest all])
  finally show ?case
    by (simp add: tk dr)
qed

lemma fill_model_prob_ok:
  assumes "holds w pair_freq (F4 pf)" and "holds w (x_pair res) (F4 xp)"
    and "holds w model_prob (F2 (replicate (L * (L - 1) div 2) (replicate 400 (Fin 0))))"
    and sh: "shape4 L 21 pf" "shape4 L 21 xp" "shape2 L L Nij"
    and L: "ncol res = L"
  shows "fill_model_prob res pair_freq lam Nij model_prob w =
         (Inr (L * (L - 1) div 2),
          w\<lparr>heap := (heap w)[model_prob := F2 (model_rows pf xp lam Nij L)]\<rparr>)"
proof -
  have in_range: "\<forall>p \<in> set (upper_pairs L). fst p < L \<and> snd p < L"
    by (auto simp: set_upper_pairs)
  have "fill_model_prob res pair_freq lam Nij model_prob w =
        for_loop (upper_pairs L)
          (\<lambda>p. pair_step res pair_freq lam Nij model_prob (fst p) (snd p)) 0 w"
    unfolding fill_model_prob_def upper_pairs_def L
    by (rule fun_cong [OF for_loop_pairs])
  also have "\<dots> = (Inr (0 + length (upper_pairs L)),
      w\<lparr>heap := (heap w)[model_prob :=
        F2 (take 0 (replicate (L * (L - 1) div 2) (replicate 400 (Fin 0)))
            @ map (model_row pf xp lam Nij) (upper_pairs L)
            @ drop (0 + length (upper_pairs L))
                (replicate (L * (L - 1) div 2) (replicate 400 (Fin 0))))]\<rparr>)"
    by (rule for_loop_pair_steps [OF assms(1,2,3) sh in_range])
       (simp_all add: length_upper_pairs)
  finally show ?thesis
    by (simp add: length_upper_pairs model_rows_def)
qed

section \<open>What \<open>write_msgpack\<close> computes\<close>

lemma map2_map_same: "map2 f (map g xs) xs = map (\<lambda>x. f (g x) x) xs"
  by (induction xs) simp_all

lemma upd_last1: "(xs @ [a])[length xs := b] = xs @ [b]"
  by simp

lemma upd_last2: "(xs @ [a, b])[Suc (length xs) := c] = xs @ [a, c]"
  by (simp add: list_update_append)

lemma nth_last1: "(xs @ a # ys) ! length xs = a"
  by simp

lemma nth_last2: "(xs @ [a, b]) ! Suc (length xs) = b"
  by (simp add: nth_append)

lemma clamp_negative_ok:
  assumes "holds w a (F1 qs)"
  shows "clamp_negative a w =
         (Inr (), w\<lparr>heap := (heap w)[a := F1 (map clamp0 qs)],
                    stdout := stdout w @ neg_warning qs\<rparr>)"
proof (cases "\<exists>q \<in> set qs. negative q")
  case True
  let ?w = "w\<lparr>stdout := stdout w @ [NegativeWarning (length (filter negative qs))]\<rparr>"
  have h: "holds ?w a (F1 qs)"
    using assms by (simp add: holds_def)
  have "map2 (\<lambda>b x. if b then Fin 0 else x) (map negative qs) qs = map clamp0 qs"
    by (simp add: map2_map_same clamp0_def)
  then have "setitem_mask a (M1 (map negative qs)) (Fin 0) ?w =
             (Inr (), ?w\<lparr>heap := (heap ?w)[a := F1 (map clamp0 qs)]\<rparr>)"
    by (simp add: setitem_mask_def then_do_def get_f1_holds [OF h] put_def)
  with True show ?thesis
    by (simp add: clamp_negative_def then_do_def get_f1_holds [OF assms] py_print_def
        neg_warning_def)
next
  case False
  then have "map clamp0 qs = qs"
    by (intro map_idI) (simp add: clamp0_def)
  moreover have "(heap w)[a := F1 qs] = heap w"
    using assms by (simp add: holds_def list_update_same_conv)
  ultimately show ?thesis
    using False
    by (simp add: clamp_negative_def then_do_def get_f1_holds [OF assms] ret_def neg_warning_def)
qed

lemma clamp_nan_ok:
  assumes "holds w a (F1 qs)" and "holds w b (F2 rows)"
  shows "clamp_nan b a w =
         (if \<exists>q \<in> set qs. isnan q
          then (Inl IndexError, w\<lparr>stdout := stdout w @ [nan_warning rows]\<rparr>)
          else (Inr (), w))"
  using assms
  by (simp add: clamp_nan_def then_do_def holds_def get_f1_def get_f2_def py_print_def
      setitem_mask_def lift_def ret_def nan_warning_def)

lemma write_msgpack_body_eq:
  fixes lam :: fl
  assumes m: "holds w msa (I2 m)" and ws: "holds w weights (F1 ws)"
    and pf: "holds w pair_freq (F4 pf)" and xp: "holds w (x_pair res) (F4 xp)"
    and sh: "shape4 (ncol res) 21 pf" "shape4 (ncol res) 21 xp"
      "shape4 (ncol res) 21 (pair_counts cm m ws)"
    and py: "python w = Python2"
  defines "Nij \<equiv> Nij_of (pair_counts cm m ws)"
  defines "rows \<equiv> model_rows pf xp lam Nij (ncol res)"
  defines "qs \<equiv> map clamp0 (concat rows)"
  defines "w4 \<equiv> w\<lparr>heap := heap w @ [F2 rows, F1 qs],
                    stdout := stdout w @ neg_warning (concat rows)\<rparr>"
  shows "write_msgpack_body cm fh res msa weights pair_freq lam w =
     (if \<exists>q \<in> set qs. isnan q
      then (Inl IndexError, w4\<lparr>stdout := stdout w4 @ [nan_warning rows]\<rparr>)
      else file_write fh
             \<lparr>N_ij = map (\<lambda>p. Nij ! fst p ! snd p) (tril_indices (ncol res)), q_ij = qs\<rparr> w4)"
proof -
  define L where "L = ncol res"
  define mp where "mp = length (heap w)"
  define zeros where "zeros = replicate (L * (L - 1) div 2) (replicate 400 (Fin 0))"
  define w1 where "w1 = w\<lparr>heap := heap w @ [F2 zeros]\<rparr>"
  define w2 where "w2 = w\<lparr>heap := heap w @ [F2 rows]\<rparr>"
  define w3 where "w3 = w\<lparr>heap := heap w @ [F2 rows, F1 (concat rows)]\<rparr>"
  note sh' = sh [folded L_def]
  have s1: "calculate_Nij cm msa weights w = (Inr Nij, w)"
    by (simp add: calculate_Nij_def then_do_def get_i2_holds [OF m] get_f1_holds [OF ws]
        ret_def Nij_def Nij_of_def)
  have shN: "shape2 L L Nij"
    unfolding Nij_def by (rule Nij_of_shape [OF sh'(3)])
  have s2: "getitem_cells Nij (tril_indices L)
            = Inr (map (\<lambda>p. Nij ! fst p ! snd p) (tril_indices L))"
    by (rule getitem_cells_ok [OF shN]) (auto simp: set_tril_indices)
  have s2': "divide (L * (L - 1)) 2 w = (Inr (PyInt (L * (L - 1) div 2)), w)"
    by (simp add: divide_def py)
  have s3: "np_zeros (PyInt (L * (L - 1) div 2)) 400 w = (Inr mp, w1)"
    by (simp add: np_zeros_def alloc_def mp_def w1_def zeros_def)
  have h1: "holds w1 pair_freq (F4 pf)" "holds w1 (x_pair res) (F4 xp)" "holds w1 mp (F2 zeros)"
    using pf xp by (simp_all add: holds_def w1_def mp_def nth_append)
  have "fill_model_prob res pair_freq lam Nij mp w1 =
        (Inr (L * (L - 1) div 2), w1\<lparr>heap := (heap w1)[mp := F2 (model_rows pf xp lam Nij L)]\<rparr>)"
    by (rule fill_model_prob_ok [OF h1(1,2) h1(3) [unfolded zeros_def] sh'(1,2) shN L_def [symmetric]])
  moreover have "w1\<lparr>heap := (heap w1)[mp := F2 (model_rows pf xp lam Nij L)]\<rparr> = w2"
    by (simp add: w1_def w2_def mp_def rows_def L_def)
  ultimately have s4: "fill_model_prob res pair_freq lam Nij mp w1 = (Inr (L * (L - 1) div 2), w2)"
    by simp
  have h2: "holds w2 mp (F2 rows)"
    by (simp add: holds_def w2_def mp_def)
  have s5: "flatten mp w2 = (Inr (Suc mp), w3)"
    by (simp add: flatten_def then_do_def get_f2_holds [OF h2] alloc_def)
       (simp add: w2_def w3_def mp_def)
  have h3: "holds w3 (Suc mp) (F1 (concat rows))"
    by (simp add: holds_def w3_def mp_def nth_last2)
  have "w3\<lparr>heap := (heap w3)[Suc mp := F1 (map clamp0 (concat rows))],
           stdout := stdout w3 @ neg_warning (concat rows)\<rparr> = w4"
    by (simp add: w3_def w4_def mp_def qs_def upd_last2)
  with clamp_negative_ok [OF h3] have s6: "clamp_negative (Suc mp) w3 = (Inr (), w4)"
    by simp
  have h4: "holds w4 (Suc mp) (F1 qs)" "holds w4 mp (F2 rows)"
    by (simp_all add: holds_def w4_def mp_def nth_last2)
  note s7 = clamp_nan_ok [OF h4]
  note s8 = get_f1_holds [OF h4(1)]
  have e2: "lift (out_N_ij res Nij) w
            = (Inr (map (\<lambda>p. Nij ! fst p ! snd p) (tril_indices L)), w)"
    by (simp add: lift_def out_N_ij_def L_def [symmetric] s2)
  have "write_msgpack_body cm fh res msa weights pair_freq lam w =
        then_do (clamp_nan mp (Suc mp))
          (\<lambda>_. then_do (get_f1 (Suc mp))
            (\<lambda>out_q_ij. file_write fh
               \<lparr>N_ij = map (\<lambda>p. Nij ! fst p ! snd p) (tril_indices L), q_ij = out_q_ij\<rparr>)) w4"
    unfolding write_msgpack_body_def L_def [symmetric]
    by (simp only:
        then_do_Inr [where m = "calculate_Nij cm msa weights", OF s1]
        then_do_Inr [where m = "lift (out_N_ij res Nij)", OF e2]
        then_do_Inr [where m = "divide (L * (L - 1)) 2", OF s2']
        then_do_Inr [where m = "np_zeros (PyInt (L * (L - 1) div 2)) 400", OF s3]
        then_do_Inr [where m = "fill_model_prob res pair_freq lam Nij mp", OF s4]
        then_do_Inr [where m = "flatten mp", OF s5]
        then_do_Inr [where m = "clamp_negative (Suc mp)", OF s6])
  then show ?thesis
    by (simp add: then_do_def s7 s8 L_def)
qed

text \<open>Under Python 3 the call stops at \<open>np.zeros\<close>, whatever the arrays hold.\<close>

lemma write_msgpack_body_python3:
  fixes lam :: fl
  assumes m: "holds w msa (I2 m)" and ws: "holds w weights (F1 ws)"
    and sh: "shape4 (ncol res) 21 (pair_counts cm m ws)"
    and py: "python w = Python3"
  shows "write_msgpack_body cm fh res msa weights pair_freq lam w = (Inl TypeError, w)"
proof -
  define Nij where "Nij = Nij_of (pair_counts cm m ws)"
  have s1: "calculate_Nij cm msa weights w = (Inr Nij, w)"
    by (simp add: calculate_Nij_def then_do_def get_i2_holds [OF m] get_f1_holds [OF ws]
        ret_def Nij_def Nij_of_def)
  have shN: "shape2 (ncol res) (ncol res) Nij"
    unfolding Nij_def by (rule Nij_of_shape [OF sh])
  have s2: "getitem_cells Nij (tril_indices (ncol res))
            = Inr (map (\<lambda>p. Nij ! fst p ! snd p) (tril_indices (ncol res)))"
    by (rule getitem_cells_ok [OF shN]) (auto simp: set_tril_indices)
  have e2: "lift (out_N_ij res Nij) w
            = (Inr (map (\<lambda>p. Nij ! fst p ! snd p) (tril_indices (ncol res))), w)"
    by (simp add: lift_def out_N_ij_def s2)
  have s3: "divide (ncol res * (ncol res - 1)) 2 w
            = (Inr (PyFloat (Fin (real (ncol res * (ncol res - 1)) / real (2::nat)))), w)"
    by (simp add: divide_def py)
  have "write_msgpack_body cm fh res msa weights pair_freq lam w =
        then_do (np_zeros (PyFloat (Fin (real (ncol res * (ncol res - 1)) / real (2::nat)))) 400)
          (\<lambda>model_prob.
     then_do (fill_model_prob res pair_freq lam Nij model_prob) (\<lambda>index.
     then_do (flatten model_prob) (\<lambda>model_prob_flat.
     then_do (clamp_negative model_prob_flat) (\<lambda>_.
     then_do (clamp_nan model_prob model_prob_flat) (\<lambda>_.
     then_do (get_f1 model_prob_flat) (\<lambda>out_q_ij.
       file_write fh \<lparr>N_ij = map (\<lambda>p. Nij ! fst p ! snd p) (tril_indices (ncol res)),
                      q_ij = out_q_ij\<rparr>)))))) w"
    unfolding write_msgpack_body_def
    by (simp only:
        then_do_Inr [where m = "calculate_Nij cm msa weights", OF s1]
        then_do_Inr [where m = "lift (out_N_ij res Nij)", OF e2]
        then_do_Inr [where m = "divide (ncol res * (ncol res - 1)) 2", OF s3])
  then show ?thesis
    by (simp add: then_do_def np_zeros_def lift_def)
qed

section \<open>The wrapped function\<close>

lemma write_msgpack_openable:
  assumes "openable f w"
  shows "write_msgpack cm f res msa weights pair_freq lam w =
         (fst (write_msgpack_body cm (handle_of f w) res msa weights pair_freq lam (entered f w)),
          leave f (handle_of f w)
            (snd (write_msgpack_body cm (handle_of f w) res msa weights pair_freq lam
                    (entered f w))))"
proof (cases f)
  case (Stream s)
  then show ?thesis
    by (simp add: write_msgpack_def stream_or_file_def handle_of_def entered_def leave_def)
next
  case (Path p)
  with assms have "p \<notin> set (unopenable w)"
    by (simp add: openable_def)
  with Path show ?thesis
    by (simp add: write_msgpack_def stream_or_file_def handle_of_def entered_def leave_def
        open_fn_def split: prod.splits)
qed

lemma write_msgpack_not_openable:
  "\<not> openable f w \<Longrightarrow> fst (write_msgpack cm f res msa weights pair_freq lam w) = Inl UnboundLocalError"
  by (cases f) (simp_all add: openable_def write_msgpack_def stream_or_file_def open_fn_def)

lemma heap_entered [simp]: "heap (entered f w) = heap w"
  by (cases f) (simp_all add: entered_def)

lemma heap_leave [simp]: "heap (leave f fh w) = heap w"
  by (cases f) (simp_all add: leave_def)

lemma holds_entered [simp]: "holds (entered f w) r a = holds w r a"
  by (simp add: holds_def)

lemma python_entered [simp]: "python (entered f w) = python w"
  by (cases f) (simp_all add: entered_def)

lemma written_leave [simp]: "written (files (leave f fh w) ! fh) = written (files w ! fh)"
  by (cases f; cases "fh < length (files w)") (simp_all add: leave_def close_def list_update_beyond)

lemma heap_file_write [simp]: "heap (snd (file_write fh c w)) = heap w"
  by (simp add: file_write_def)

lemma file_write_Inr:
  "fst (file_write fh c w) = Inr () \<Longrightarrow>
   written (files (snd (file_write fh c w)) ! fh) = written (files w ! fh) @ [c]"
  by (simp add: file_write_def split: if_splits)

lemma write_msgpack_heap:
  fixes lam :: fl
  assumes "openable f w"
    and "holds w msa (I2 m)" and "holds w weights (F1 ws)"
    and "holds w pair_freq (F4 pf)" and "holds w (x_pair res) (F4 xp)"
    and "shape4 (ncol res) 21 pf" and "shape4 (ncol res) 21 xp"
    and "shape4 (ncol res) 21 (pair_counts cm m ws)"
    and "python w = Python2"
  shows "heap (snd (write_msgpack cm f res msa weights pair_freq lam w)) =
         heap w @ [F2 (model_rows pf xp lam (Nij_of (pair_counts cm m ws)) (ncol res)),
                   F1 (map clamp0 (concat
                     (model_rows pf xp lam (Nij_of (pair_counts cm m ws)) (ncol res))))]"
  using assms
  by (simp add: write_msgpack_openable
      write_msgpack_body_eq [where w = "entered f w" and m = m and ws = ws and pf = pf and xp = xp])

lemma write_msgpack_success:
  fixes lam :: fl
  assumes "holds w msa (I2 m)" and "holds w weights (F1 ws)"
    and "holds w pair_freq (F4 pf)" and "holds w (x_pair res) (F4 xp)"
    and "shape4 (ncol res) 21 pf" and "shape4 (ncol res) 21 xp"
    and "shape4 (ncol res) 21 (pair_counts cm m ws)"
    and ok: "fst (write_msgpack cm f res msa weights pair_freq lam w) = Inr ()"
  shows "\<exists>old. written (files (snd (write_msgpack cm f res msa weights pair_freq lam w))
                   ! handle_of f w) =
           old @ [\<lparr>N_ij = map (\<lambda>p. Nij_of (pair_counts cm m ws) ! fst p ! snd p)
                             (tril_indices (ncol res)),
                    q_ij = map clamp0 (concat
                      (model_rows pf xp lam (Nij_of (pair_counts cm m ws)) (ncol res)))\<rparr>]"
proof -
  have op: "openable f w"
    using ok write_msgpack_not_openable [of f w cm res msa weights pair_freq lam] by auto
  note eq = write_msgpack_body_eq [where w = "entered f w" and m = m and ws = ws and pf = pf
      and xp = xp and res = res and cm = cm and msa = msa and weights = weights
      and pair_freq = pair_freq and lam = lam and fh = "handle_of f w"]
  note eq3 = write_msgpack_body_python3 [where w = "entered f w" and m = m and ws = ws
      and res = res and cm = cm and msa = msa and weights = weights
      and pair_freq = pair_freq and lam = lam and fh = "handle_of f w"]
  have py: "python w = Python2"
  proof (rule ccontr)
    assume "python w \<noteq> Python2"
    then have "python w = Python3"
      by (cases "python w") simp_all
    with ok op assms(1-7) show False
      by (simp add: write_msgpack_openable eq3)
  qed
  from ok op assms(1-7) py show ?thesis
    by (auto simp: write_msgpack_openable eq dest!: file_write_Inr split: if_splits)
qed

section \<open>Concrete calls\<close>

lemma concat_replicate_replicate: "concat (replicate n (replicate k c)) = replicate (n * k) c"
  by (induction n) (simp_all add: replicate_add)

lemma shape4_full4: "shape4 L 21 (full4 L c)"
  by (simp add: shape4_def shape2_def full4_def)

lemma block20_full4: "i < L \<Longrightarrow> j < L \<Longrightarrow> block20 (full4 L c) i j = replicate 400 c"
  by (simp add: block20_def full4_def concat_replicate_replicate)

lemma model_row_full4:
  "i < L \<Longrightarrow> j < L \<Longrightarrow>
   model_row (full4 L c) (full4 L x) lam Nij (i, j)
   = replicate 400 (fsub c (fdiv (fmul x lam) (Nij ! i ! j)))"
  by (simp add: model_row_def block20_full4 zip_replicate)

lemma shape_ccmpred_counts:
  "shape4 (ncols msa) 21 (pair_counts ccmpred_counts msa ws)"
  "shape2 (ncols msa) 21 (single_counts ccmpred_counts msa ws)"
  by (auto simp: shape4_def shape2_def ccmpred_counts_def)

lemma upt_20: "[0..<20] = [0, 1, 2, 3, 4, 5, 6, 7, 8, 9, 10, 11, 12, 13, 14, 15, 16, 17, 18, 19]"
  by (simp add: upt_rec)

lemma Nij_ccmpred_counts:
  assumes "i < ncols msa" and "j < ncols msa"
  shows "Nij_of (pair_counts ccmpred_counts msa ws) ! i ! j =
         fsum (map (\<lambda>a. fsum (map (\<lambda>b. weight_of (\<lambda>s. s ! i = a \<and> s ! j = b) msa ws) [0..<20]))
                 [0..<20])"
proof -
  have t: "take 20 [0..<21] = [0..<20]"
    by (simp add: take_upt)
  have "pair_counts ccmpred_counts msa ws ! i ! j =
        map (\<lambda>a. map (\<lambda>b. weight_of (\<lambda>s. s ! i = a \<and> s ! j = b) msa ws) [0..<21]) [0..<21]"
    using assms by (simp add: ccmpred_counts_def)
  then show ?thesis
    using assms t
    by (simp add: Nij_of_nth [OF shape_ccmpred_counts(1)] take_map comp_def)
qed

lemma ncols_examples [simp]: "ncols msa3 = 3" "ncols msa2 = 2"
  by (simp_all add: ncols_def msa3_def msa2_def)

lemma Nij3_cells:
  "Nij_of (pair_counts ccmpred_counts msa3 weights3) ! 0 ! Suc 0 = Fin 1"
  "Nij_of (pair_counts ccmpred_counts msa3 weights3) ! 0 ! 2 = Fin 2"
  "Nij_of (pair_counts ccmpred_counts msa3 weights3) ! Suc 0 ! 2 = Fin 3"
  "Nij_of (pair_counts ccmpred_counts msa3 weights3) ! Suc 0 ! 0 = Fin 1"
  "Nij_of (pair_counts ccmpred_counts msa3 weights3) ! 2 ! 0 = Fin 2"
  "Nij_of (pair_counts ccmpred_counts msa3 weights3) ! 2 ! Suc 0 = Fin 3"
  by (simp_all add: Nij_ccmpred_counts)
     (simp_all add: upt_20 weight_of_def msa3_def weights3_def fsum_def)

lemma Nij2_cell: "Nij_of (pair_counts ccmpred_counts msa2 [Fin 1]) ! 0 ! Suc 0 = Fin 0"
  by (simp add: Nij_ccmpred_counts) (simp add: upt_20 weight_of_def msa2_def fsum_def)

lemma upper_pairs_examples:
  "upper_pairs 2 = [(0, 1)]" "upper_pairs 3 = [(0, 1), (0, 2), (1, 2)]"
  by (simp_all add: upper_pairs_def upt_rec)

lemma tril_examples:
  "tril_indices 3 = [(1, 0), (2, 0), (2, 1)]" "tril_rows_downward 3 = [(2, 0), (2, 1), (1, 0)]"
  by (simp_all add: tril_indices_def tril_rows_downward_def upt_rec)

lemma world_of_holds:
  "holds (world_of msa ws pf xp) 0 (I2 msa)"
  "holds (world_of msa ws pf xp) (Suc 0) (F1 ws)"
  "holds (world_of msa ws pf xp) 2 (F4 pf)"
  "holds (world_of msa ws pf xp) 3 (F4 xp)"
  by (simp_all add: holds_def world_of_def)

lemma model_rows_full4:
  "model_rows (full4 L c) (full4 L x) (Fin 1) Nij L = uniform_rows L c x Nij"
  unfolding model_rows_def uniform_rows_def
  by (rule map_cong) (auto simp: set_upper_pairs model_row_full4)

lemma call_uniform:
  fixes ws :: "fl list" and c x :: fl
  assumes "ncols msa = L"
  defines "w0 \<equiv> world_of msa ws (full4 L c) (full4 L x)"
  defines "Nij \<equiv> Nij_of (pair_counts ccmpred_counts msa ws)"
  defines "rows \<equiv> uniform_rows L c x Nij"
  defines "w4 \<equiv> w0\<lparr>heap := heap w0 @ [F2 rows, F1 (map clamp0 (concat rows))],
                     stdout := stdout w0 @ neg_warning (concat rows)\<rparr>"
  shows "call L w0 =
     (if \<exists>q \<in> set (map clamp0 (concat rows)). isnan q
      then (Inl IndexError, w4\<lparr>stdout := stdout w4 @ [nan_warning rows]\<rparr>)
      else file_write 0
             \<lparr>N_ij = map (\<lambda>p. Nij ! fst p ! snd p) (tril_indices L),
                q_ij = map clamp0 (concat rows)\<rparr> w4)"
proof -
  have sh: "shape4 (ncol \<lparr>ncol = L, x_pair = 3\<rparr>) 21 (full4 L c)"
    "shape4 (ncol \<lparr>ncol = L, x_pair = 3\<rparr>) 21 (full4 L x)"
    "shape4 (ncol \<lparr>ncol = L, x_pair = 3\<rparr>) 21 (pair_counts ccmpred_counts msa ws)"
    using shape_ccmpred_counts(1) [of msa ws] assms(1) by (simp_all add: shape4_full4)
  have h: "holds w0 (x_pair \<lparr>ncol = L, x_pair = 3\<rparr>) (F4 (full4 L x))"
    by (simp add: w0_def world_of_holds)
  have py: "python w0 = Python2"
    by (simp add: w0_def world_of_def)
  note eq = write_msgpack_body_eq [OF world_of_holds(1,2,3) [of msa ws "full4 L c" "full4 L x",
        folded w0_def] h sh py, of 0 "Fin 1"]
  have "call L w0 = write_msgpack_body ccmpred_counts 0 \<lparr>ncol = L, x_pair = 3\<rparr> 0 (Suc 0) 2
                      (Fin 1) w0"
    by (simp add: call_def write_msgpack_def stream_or_file_def)
  also note eq
  finally show ?thesis
    by (simp add: model_rows_full4 rows_def Nij_def w4_def)
qed

lemma call_uniform_obs:
  fixes ws :: "fl list" and c x :: fl
  assumes "ncols msa = L"
  defines "w0 \<equiv> world_of msa ws (full4 L c) (full4 L x)"
  defines "Nij \<equiv> Nij_of (pair_counts ccmpred_counts msa ws)"
  defines "rows \<equiv> uniform_rows L c x Nij"
  shows "fst (call L w0)
         = (if \<exists>q \<in> set (map clamp0 (concat rows)). isnan q then Inl IndexError else Inr ())"
    and "written (files (snd (call L w0)) ! 0)
         = (if \<exists>q \<in> set (map clamp0 (concat rows)). isnan q then []
            else [\<lparr>N_ij = map (\<lambda>p. Nij ! fst p ! snd p) (tril_indices L),
                    q_ij = map clamp0 (concat rows)\<rparr>])"
    and "stdout (snd (call L w0))
         = neg_warning (concat rows)
           @ (if \<exists>q \<in> set (map clamp0 (concat rows)). isnan q then [nan_warning rows] else [])"
    and "heap (snd (call L w0)) = heap w0 @ [F2 rows, F1 (map clamp0 (concat rows))]"
  unfolding w0_def Nij_def rows_def call_uniform [OF assms(1)]
  by (simp_all add: file_write_def world_of_def)

lemma uniform_rows3:
  "uniform_rows 3 (Fin (1 / 441)) (Fin 0) (Nij_of (pair_counts ccmpred_counts msa3 weights3))
   = [replicate 400 (Fin (1 / 441)), replicate 400 (Fin (1 / 441)),
      replicate 400 (Fin (1 / 441))]"
  by (simp add: uniform_rows_def upper_pairs_examples Nij3_cells fsub_def)

lemma uniform_rows2:
  "uniform_rows 2 (Fin (1 / 441)) (Fin 0) (Nij_of (pair_counts ccmpred_counts msa2 [Fin 1]))
   = [replicate 400 NaN]"
  "uniform_rows 2 (Fin (1 / 441)) (Fin (- 1)) (Nij_of (pair_counts ccmpred_counts msa2 [Fin 1]))
   = [replicate 400 PInf]"
  by (simp_all add: uniform_rows_def upper_pairs_examples Nij2_cell fsub_def inf_of_def)

lemma call3_result:
  "fst (call 3 world3) = Inr ()"
  "written (files (snd (call 3 world3)) ! 0)
   = [\<lparr>N_ij = [Fin 1, Fin 2, Fin 3], q_ij = replicate 1200 (Fin (1 / 441))\<rparr>]"
  unfolding world3_def
  by (simp_all add: call_uniform_obs uniform_rows3 replicate_add [symmetric] clamp0_def
      tril_examples Nij3_cells)

lemma call2_nan:
  "fst (call 2 (world2 (Fin 0))) = Inl IndexError"
  "written (files (snd (call 2 (world2 (Fin 0)))) ! 0) = []"
  unfolding world2_def
  by (simp_all add: call_uniform_obs uniform_rows2 clamp0_def)

lemma call2_inf:
  "fst (call 2 (world2 (Fin (- 1)))) = Inr ()"
  "map q_ij (written (files (snd (call 2 (world2 (Fin (- 1))))) ! 0)) = [replicate 400 PInf]"
  "stdout (snd (call 2 (world2 (Fin (- 1))))) = []"
  unfolding world2_def
  by (simp_all add: call_uniform_obs uniform_rows2 clamp0_def neg_warning_def)

lemma call3_heap:
  "heap (snd (call 3 world3)) ! 4
   = F2 [replicate 400 (Fin (1 / 441)), replicate 400 (Fin (1 / 441)),
         replicate 400 (Fin (1 / 441))]"
  unfolding world3_def
  by (simp add: call_uniform_obs uniform_rows3) (simp add: world_of_def)

lemma write_msgpack_python3:
  fixes lam :: fl
  assumes "openable f w" and "holds w msa (I2 m)" and "holds w weights (F1 ws)"
    and "shape4 (ncol res) 21 (pair_counts cm m ws)" and "python w = Python3"
  shows "fst (write_msgpack cm f res msa weights pair_freq lam w) = Inl TypeError"
    and "heap (snd (write_msgpack cm f res msa weights pair_freq lam w)) = heap w"
    and "written (files (snd (write_msgpack cm f res msa weights pair_freq lam w)) ! handle_of f w)
         = written (files (entered f w) ! handle_of f w)"
  using assms
  by (simp_all add: write_msgpack_openable
      write_msgpack_body_python3 [where w = "entered f w" and m = m and ws = ws])

lemma call3_python3:
  "fst (call 3 world3_py3) = Inl TypeError"
  "heap (snd (call 3 world3_py3)) = heap world3_py3"
  "written (files (snd (call 3 world3_py3)) ! 0) = []"
proof -
  let ?res = "\<lparr>ncol = 3, x_pair = 3\<rparr>"
  have op: "openable (Stream 0) world3_py3"
    by (simp add: openable_def)
  have h: "holds world3_py3 0 (I2 msa3)" "holds world3_py3 1 (F1 weights3)"
    by (simp_all add: world3_py3_def world3_def world_of_def holds_def)
  have sh: "shape4 (ncol ?res) 21 (pair_counts ccmpred_counts msa3 weights3)"
    using shape_ccmpred_counts(1) [of msa3 weights3] by simp
  have py: "python world3_py3 = Python3"
    by (simp add: world3_py3_def)
  note r = write_msgpack_python3 [OF op h sh py, of 2 "Fin 1", folded call_def]
  show "fst (call 3 world3_py3) = Inl TypeError"
    by (rule r(1))
  show "heap (snd (call 3 world3_py3)) = heap world3_py3"
    by (rule r(2))
  show "written (files (snd (call 3 world3_py3)) ! 0) = []"
    using r(3)
    by (simp add: handle_of_def entered_def) (simp add: world3_py3_def world3_def world_of_def)
qed

section \<open>The model probabilities\<close>

text \<open>
  For a call under Python 2 that enters its target, with arrays of the shapes of the
  data model, the array \<open>model_prob\<close> (the first array that the call puts into the store)
  has one row for each pair of columns \<open>i < j\<close>, and in that row the entry \<open>a * 20 + b\<close>
  for the amino acids \<open>a\<close> and \<open>b\<close> is
  \<open>pair_freq[i,j,a,b] - x_pair[i,j,a,b] * lambda_pair / Nij[i,j]\<close>, where \<open>Nij\<close> is what
  \<open>calculate_Nij\<close> returns: the pair counts summed over the 20 states that are not the gap.
\<close>

lemma python2_model_prob_entries:
  fixes lam :: fl
  assumes "openable f w"
    and "holds w msa (I2 m)" and "holds w weights (F1 ws)"
    and "holds w pair_freq (F4 pf)" and "holds w (x_pair res) (F4 xp)"
    and "shape4 (ncol res) 21 pf" and "shape4 (ncol res) 21 xp"
    and "shape4 (ncol res) 21 (pair_counts cm m ws)"
    and "python w = Python2"
    and "i < j" and "j < ncol res" and "a < 20" and "b < 20"
  shows "\<exists>rows k.
           heap (snd (write_msgpack cm f res msa weights pair_freq lam w)) ! length (heap w)
             = F2 rows
         \<and> length rows = ncol res * (ncol res - 1) div 2
         \<and> k < length rows \<and> upper_pairs (ncol res) ! k = (i, j)
         \<and> rows ! k ! (a * 20 + b)
             = fsub (pf ! i ! j ! a ! b)
                 (fdiv (fmul (xp ! i ! j ! a ! b) lam) (Nij_of (pair_counts cm m ws) ! i ! j))
         \<and> fst (calculate_Nij cm msa weights w) = Inr (Nij_of (pair_counts cm m ws))
         \<and> Nij_of (pair_counts cm m ws) ! i ! j
             = fsum (map (\<lambda>r. fsum (take 20 r)) (take 20 (pair_counts cm m ws ! i ! j)))"
proof -
  define Nij where "Nij = Nij_of (pair_counts cm m ws)"
  define rows where "rows = model_rows pf xp lam Nij (ncol res)"
  have ij: "i < ncol res" "j < ncol res"
    using assms(10,11) by simp_all
  have "(i, j) \<in> set (upper_pairs (ncol res))"
    using assms(10,11) by (simp add: set_upper_pairs)
  then obtain k where k: "k < length (upper_pairs (ncol res))" "upper_pairs (ncol res) ! k = (i, j)"
    by (auto simp: in_set_conv_nth)
  have 1: "heap (snd (write_msgpack cm f res msa weights pair_freq lam w)) ! length (heap w)
           = F2 rows"
    by (simp add: write_msgpack_heap [OF assms(1-9)] rows_def Nij_def)
  have 2: "length rows = ncol res * (ncol res - 1) div 2"
    by (simp add: rows_def model_rows_def length_upper_pairs)
  have 3: "k < length rows"
    using k by (simp add: rows_def model_rows_def)
  have "rows ! k = model_row pf xp lam Nij (i, j)"
    using k by (simp add: rows_def model_rows_def)
  then have 4: "rows ! k ! (a * 20 + b)
      = fsub (pf ! i ! j ! a ! b) (fdiv (fmul (xp ! i ! j ! a ! b) lam) (Nij ! i ! j))"
    using model_row_nth [OF assms(6,7) ij assms(12,13)] by simp
  have 5: "fst (calculate_Nij cm msa weights w) = Inr Nij"
    by (simp add: calculate_Nij_def then_do_def get_i2_holds [OF assms(2)]
        get_f1_holds [OF assms(3)] ret_def Nij_def Nij_of_def)
  have 6: "Nij ! i ! j = fsum (map (\<lambda>r. fsum (take 20 r)) (take 20 (pair_counts cm m ws ! i ! j)))"
    unfolding Nij_def by (rule Nij_of_nth [OF assms(8) ij])
  from 1 2 3 k(2) 4 5 6 show ?thesis
    unfolding Nij_def by blast
qed

text \<open>
  C1. The call for an alignment of three columns, under Python 3: the number of rows
  that line 57 asks of \<open>np.zeros\<close> is the float \<open>3 * 2 / 2\<close>, \<open>np.zeros\<close> raises
  \<open>TypeError\<close>, and the call ends there. The store is as before the call: there is no
  array \<open>model_prob\<close>, no entry of it has been computed. The same call under Python 2
  leaves \<open>model_prob\<close> at the first free address, with the three rows of model
  probabilities.
\<close>

theorem model_prob_not_computed:
  "python world3_py3 = Python3
   \<and> fst (divide (3 * (3 - 1)) 2 world3_py3) = Inr (PyFloat (Fin 3))
   \<and> fst (call 3 world3_py3) = Inl TypeError
   \<and> heap (snd (call 3 world3_py3)) = heap world3_py3
   \<and> heap world3_py3 = heap world3 \<and> length (heap world3) = 4
   \<and> python world3 = Python2
   \<and> heap (snd (call 3 world3)) ! 4
       = F2 [replicate 400 (Fin (1 / 441)), replicate 400 (Fin (1 / 441)),
             replicate 400 (Fin (1 / 441))]"
  by (simp add: call3_python3 call3_heap)
     (simp add: world3_py3_def world3_def world_of_def divide_def)

section \<open>The counts without the gap\<close>

lemma take_map_nth: "n \<le> length xs \<Longrightarrow> take n xs = map ((!) xs) [0..<n]"
  by (simp add: list_eq_iff_nth_eq)

lemma Ni_formula:
  assumes "shape2 L 21 sc"
  shows "sum1 (map (take 20) sc) = map (\<lambda>i. fsum (map (\<lambda>a. sc ! i ! a) [0..<20])) [0..<L]"
proof (rule nth_equalityI)
  show "length (sum1 (map (take 20) sc)) = length (map (\<lambda>i. fsum (map (\<lambda>a. sc ! i ! a) [0..<20])) [0..<L])"
    using assms by (simp add: sum1_def shape2_def)
next
  fix i
  assume "i < length (sum1 (map (take 20) sc))"
  then have i: "i < L"
    using assms by (simp add: sum1_def shape2_def)
  then have "length (sc ! i) = 21"
    using assms by (simp add: shape2D)
  then have "take 20 (sc ! i) = map ((!) (sc ! i)) [0..<20]"
    by (simp add: take_map_nth)
  then show "sum1 (map (take 20) sc) ! i
             = map (\<lambda>i. fsum (map (\<lambda>a. sc ! i ! a) [0..<20])) [0..<L] ! i"
    using i assms by (simp add: sum1_def shape2_def)
qed

lemma Nij_cell_formula:
  assumes "shape4 L 21 pc" and "i < L" and "j < L"
  shows "Nij_of pc ! i ! j
         = fsum (map (\<lambda>a. fsum (map (\<lambda>b. pc ! i ! j ! a ! b) [0..<20])) [0..<20])"
proof -
  have b: "shape2 21 21 (pc ! i ! j)"
    by (rule shape4D [OF assms])
  then have 1: "take 20 (pc ! i ! j) = map ((!) (pc ! i ! j)) [0..<20]"
    by (simp add: take_map_nth shape2_def)
  have 2: "take 20 (pc ! i ! j ! a) = map ((!) (pc ! i ! j ! a)) [0..<20]" if "a < 20" for a
    using b that by (simp add: take_map_nth shape2D)
  have e: "map (\<lambda>a. fsum (take 20 (pc ! i ! j ! a))) [0..<20]
        = map (\<lambda>a. fsum (map (\<lambda>b. pc ! i ! j ! a ! b) [0..<20])) [0..<20]"
    by (rule map_cong) (simp_all add: 2)
  have "Nij_of pc ! i ! j = fsum (map (\<lambda>a. fsum (take 20 (pc ! i ! j ! a))) [0..<20])"
    by (simp add: Nij_of_nth [OF assms] 1 comp_def)
  also have "\<dots> = fsum (map (\<lambda>a. fsum (map (\<lambda>b. pc ! i ! j ! a ! b) [0..<20])) [0..<20])"
    by (simp only: e)
  finally show ?thesis .
qed

lemma Nij_formula:
  assumes "shape4 L 21 pc"
  shows "Nij_of pc
         = map (\<lambda>i. map (\<lambda>j. fsum (map (\<lambda>a. fsum (map (\<lambda>b. pc ! i ! j ! a ! b) [0..<20]))
                                    [0..<20])) [0..<L]) [0..<L]"
proof -
  have s: "shape2 L L (Nij_of pc)"
    by (rule Nij_of_shape [OF assms])
  show ?thesis
  proof (rule nth_equalityI)
    show "length (Nij_of pc) = length (map (\<lambda>i. map (\<lambda>j. fsum (map (\<lambda>a. fsum (map (\<lambda>b. pc ! i ! j ! a ! b) [0..<20])) [0..<20])) [0..<L]) [0..<L])"
      using s by (simp add: shape2_def)
  next
    fix i
    assume "i < length (Nij_of pc)"
    then have i: "i < L"
      using s by (simp add: shape2_def)
    have "Nij_of pc ! i = map (\<lambda>j. fsum (map (\<lambda>a. fsum (map (\<lambda>b. pc ! i ! j ! a ! b) [0..<20])) [0..<20])) [0..<L]"
      using i shape2D(2) [OF s i] by (intro nth_equalityI) (simp_all add: Nij_cell_formula [OF assms i])
    with i show "Nij_of pc ! i = map (\<lambda>i. map (\<lambda>j. fsum (map (\<lambda>a. fsum (map (\<lambda>b. pc ! i ! j ! a ! b) [0..<20])) [0..<20])) [0..<L]) [0..<L] ! i"
      by simp
  qed
qed

lemma calculate_Ni_eq:
  assumes "holds w msa (I2 m)" and "holds w weights (F1 ws)"
  shows "calculate_Ni cm msa weights w = (Inr (sum1 (map (take 20) (single_counts cm m ws))), w)"
  by (simp add: calculate_Ni_def then_do_def get_i2_holds [OF assms(1)]
      get_f1_holds [OF assms(2)] ret_def)

lemma calculate_Nij_eq:
  assumes "holds w msa (I2 m)" and "holds w weights (F1 ws)"
  shows "calculate_Nij cm msa weights w = (Inr (Nij_of (pair_counts cm m ws)), w)"
  by (simp add: calculate_Nij_def then_do_def get_i2_holds [OF assms(1)]
      get_f1_holds [OF assms(2)] ret_def Nij_of_def)

text \<open>
  C4. For an alignment and weights in the store, and counts of the shapes \<open>[L, 21]\<close> and
  \<open>[L, L, 21, 21]\<close>, \<open>calculate_Ni\<close> and \<open>calculate_Nij\<close> return, without changing
  anything, the arrays of the sums of the counts over the states 0 to 19. The counts of
  the gap state 20 do not enter: counts that agree in the states 0 to 19 give the same
  results.
\<close>

theorem counts_without_gap:
  assumes "holds w msa (I2 m)" and "holds w weights (F1 ws)"
    and "shape2 L 21 (single_counts cm m ws)" and "shape4 L 21 (pair_counts cm m ws)"
  shows "\<exists>Ni Nij.
           calculate_Ni cm msa weights w = (Inr Ni, w)
         \<and> calculate_Nij cm msa weights w = (Inr Nij, w)
         \<and> Ni = map (\<lambda>i. fsum (map (\<lambda>a. single_counts cm m ws ! i ! a) [0..<20])) [0..<L]
         \<and> Nij = map (\<lambda>i. map (\<lambda>j.
                    fsum (map (\<lambda>a. fsum (map (\<lambda>b. pair_counts cm m ws ! i ! j ! a ! b) [0..<20]))
                            [0..<20])) [0..<L]) [0..<L]
         \<and> (\<forall>cm'. shape2 L 21 (single_counts cm' m ws)
                \<and> (\<forall>i<L. \<forall>a<20. single_counts cm' m ws ! i ! a = single_counts cm m ws ! i ! a)
              \<longrightarrow> calculate_Ni cm' msa weights w = calculate_Ni cm msa weights w)
         \<and> (\<forall>cm'. shape4 L 21 (pair_counts cm' m ws)
                \<and> (\<forall>i<L. \<forall>j<L. \<forall>a<20. \<forall>b<20.
                      pair_counts cm' m ws ! i ! j ! a ! b = pair_counts cm m ws ! i ! j ! a ! b)
              \<longrightarrow> calculate_Nij cm' msa weights w = calculate_Nij cm msa weights w)"
proof -
  note ni = calculate_Ni_eq [OF assms(1,2)] and nij = calculate_Nij_eq [OF assms(1,2)]
  have 1: "calculate_Ni cm' msa weights w = calculate_Ni cm msa weights w"
    if "shape2 L 21 (single_counts cm' m ws)"
      and "\<forall>i<L. \<forall>a<20. single_counts cm' m ws ! i ! a = single_counts cm m ws ! i ! a"
    for cm'
  proof -
    have "map (\<lambda>i. fsum (map (\<lambda>a. single_counts cm' m ws ! i ! a) [0..<20])) [0..<L]
          = map (\<lambda>i. fsum (map (\<lambda>a. single_counts cm m ws ! i ! a) [0..<20])) [0..<L]"
      using that(2) by (intro map_cong refl arg_cong [where f = fsum]) simp_all
    then show ?thesis
      unfolding ni Ni_formula [OF assms(3)] Ni_formula [OF that(1)] by (simp only:)
  qed
  have 2: "calculate_Nij cm' msa weights w = calculate_Nij cm msa weights w"
    if "shape4 L 21 (pair_counts cm' m ws)"
      and "\<forall>i<L. \<forall>j<L. \<forall>a<20. \<forall>b<20.
             pair_counts cm' m ws ! i ! j ! a ! b = pair_counts cm m ws ! i ! j ! a ! b"
    for cm'
  proof -
    have "map (\<lambda>i. map (\<lambda>j. fsum (map (\<lambda>a. fsum (map (\<lambda>b.
              pair_counts cm' m ws ! i ! j ! a ! b) [0..<20])) [0..<20])) [0..<L]) [0..<L]
          = map (\<lambda>i. map (\<lambda>j. fsum (map (\<lambda>a. fsum (map (\<lambda>b.
              pair_counts cm m ws ! i ! j ! a ! b) [0..<20])) [0..<20])) [0..<L]) [0..<L]"
      using that(2) by (intro map_cong refl arg_cong [where f = fsum]) simp_all
    then show ?thesis
      unfolding nij Nij_formula [OF assms(4)] Nij_formula [OF that(1)] by (simp only:)
  qed
  from 1 2 show ?thesis
    by (simp add: ni nij Ni_formula [OF assms(3)] Nij_formula [OF assms(4)])
qed

theorem counts_without_gap_witness:
  "holds world3 0 (I2 msa3) \<and> holds world3 1 (F1 weights3)
   \<and> shape2 3 21 (single_counts ccmpred_counts msa3 weights3)
   \<and> shape4 3 21 (pair_counts ccmpred_counts msa3 weights3)
   \<and> (\<exists>Ni Nij. calculate_Ni ccmpred_counts 0 1 world3 = (Inr Ni, world3)
         \<and> calculate_Nij ccmpred_counts 0 1 world3 = (Inr Nij, world3)
         \<and> length Ni = 3 \<and> length Nij = 3)"
proof -
  have h: "holds world3 0 (I2 msa3)" "holds world3 1 (F1 weights3)"
    by (simp_all add: world3_def world_of_def holds_def)
  have sh: "shape2 3 21 (single_counts ccmpred_counts msa3 weights3)"
    "shape4 3 21 (pair_counts ccmpred_counts msa3 weights3)"
    using shape_ccmpred_counts [of msa3 weights3] by simp_all
  from counts_without_gap [OF h sh]
  obtain Ni Nij where "calculate_Ni ccmpred_counts 0 1 world3 = (Inr Ni, world3)"
    "calculate_Nij ccmpred_counts 0 1 world3 = (Inr Nij, world3)"
    "Ni = map (\<lambda>i. fsum (map (\<lambda>a. single_counts ccmpred_counts msa3 weights3 ! i ! a) [0..<20]))
            [0..<3]"
    "Nij = map (\<lambda>i. map (\<lambda>j. fsum (map (\<lambda>a. fsum (map (\<lambda>b.
              pair_counts ccmpred_counts msa3 weights3 ! i ! j ! a ! b) [0..<20])) [0..<20]))
              [0..<3]) [0..<3]"
    by blast
  then have "calculate_Ni ccmpred_counts 0 1 world3 = (Inr Ni, world3)
      \<and> calculate_Nij ccmpred_counts 0 1 world3 = (Inr Nij, world3)
      \<and> length Ni = 3 \<and> length Nij = 3"
    by simp
  with h sh show ?thesis
    by blast
qed

section \<open>The serialized container\<close>

text \<open>
  C3, as stated: the entry \<open>N_ij\<close> lists the cells below the diagonal with the row index
  going from the largest index downward. For three columns and the pair counts 1, 2, 3
  of the cells (1,0), (2,0), (2,1), the entry that lines 49 to 55 give the dictionary
  \<open>out\<close> is 1, 2, 3, under either interpreter: the rows come in increasing order. The
  order of the claim would give 2, 3, 1. Under Python 2 the call returns and this entry
  is in the container that it has written.
\<close>

theorem N_ij_order_counterexample:
  "fst (calculate_Nij ccmpred_counts 0 1 world3_py3)
     = Inr (Nij_of (pair_counts ccmpred_counts msa3 weights3))
   \<and> fst (calculate_Nij ccmpred_counts 0 1 world3)
     = Inr (Nij_of (pair_counts ccmpred_counts msa3 weights3))
   \<and> out_N_ij \<lparr>ncol = 3, x_pair = 3\<rparr> (Nij_of (pair_counts ccmpred_counts msa3 weights3))
     = Inr [Fin 1, Fin 2, Fin 3]
   \<and> map (\<lambda>p. Nij_of (pair_counts ccmpred_counts msa3 weights3) ! fst p ! snd p)
        (tril_rows_downward 3) = [Fin 2, Fin 3, Fin 1]
   \<and> python world3 = Python2
   \<and> fst (call 3 world3) = Inr ()
   \<and> map N_ij (written (files (snd (call 3 world3)) ! 0)) = [[Fin 1, Fin 2, Fin 3]]"
proof -
  have h: "holds world3 0 (I2 msa3)" "holds world3 1 (F1 weights3)"
    "holds world3_py3 0 (I2 msa3)" "holds world3_py3 1 (F1 weights3)"
    by (simp_all add: world3_py3_def world3_def world_of_def holds_def)
  have sh: "shape2 3 3 (Nij_of (pair_counts ccmpred_counts msa3 weights3))"
    using Nij_of_shape [OF shape_ccmpred_counts(1) [of msa3 weights3]] by simp
  have "getitem_cells (Nij_of (pair_counts ccmpred_counts msa3 weights3)) (tril_indices 3)
        = Inr (map (\<lambda>p. Nij_of (pair_counts ccmpred_counts msa3 weights3) ! fst p ! snd p)
                 (tril_indices 3))"
    by (rule getitem_cells_ok [OF sh]) (auto simp: set_tril_indices)
  then have o: "out_N_ij \<lparr>ncol = 3, x_pair = 3\<rparr>
                 (Nij_of (pair_counts ccmpred_counts msa3 weights3))
               = Inr [Fin 1, Fin 2, Fin 3]"
    by (simp add: out_N_ij_def tril_examples Nij3_cells)
  have p: "python world3 = Python2"
    by (simp add: world3_def world_of_def)
  have c2: "fst (calculate_Nij ccmpred_counts 0 1 world3)
            = Inr (Nij_of (pair_counts ccmpred_counts msa3 weights3))"
    by (simp only: calculate_Nij_eq [OF h(1,2)] fst_conv)
  have c3: "fst (calculate_Nij ccmpred_counts 0 1 world3_py3)
            = Inr (Nij_of (pair_counts ccmpred_counts msa3 weights3))"
    by (simp only: calculate_Nij_eq [OF h(3,4)] fst_conv)
  have t: "map (\<lambda>p. Nij_of (pair_counts ccmpred_counts msa3 weights3) ! fst p ! snd p)
             (tril_rows_downward 3) = [Fin 2, Fin 3, Fin 1]"
    by (simp add: tril_examples Nij3_cells)
  have r: "fst (call 3 world3) = Inr ()"
    "map N_ij (written (files (snd (call 3 world3)) ! 0)) = [[Fin 1, Fin 2, Fin 3]]"
    by (simp_all add: call3_result)
  from c3 c2 o t p r show ?thesis
    by (intro conjI)
qed

text \<open>
  C3, amended. For arrays of the shapes of the data model, the entry \<open>N_ij\<close> that
  \<open>write_msgpack\<close> gives the container (the dictionary \<open>out\<close>, of which it is the first
  entry) has length \<open>L (L - 1) / 2\<close> and holds the values \<open>Nij[i, j]\<close> of the cells \<open>j < i\<close>
  below the diagonal in increasing lexicographic order: row by row with the row index
  going upward, and in each row the columns from 0 to \<open>i - 1\<close>. When the call returns,
  this is the entry \<open>N_ij\<close> of the container that it has written.
\<close>

theorem N_ij_layout:
  fixes lam :: fl
  assumes "holds w msa (I2 m)" and "holds w weights (F1 ws)"
    and "holds w pair_freq (F4 pf)" and "holds w (x_pair res) (F4 xp)"
    and "shape4 (ncol res) 21 pf" and "shape4 (ncol res) 21 xp"
    and "shape4 (ncol res) 21 (pair_counts cm m ws)"
  shows "\<exists>Nij entry.
           calculate_Nij cm msa weights w = (Inr Nij, w)
         \<and> Nij = Nij_of (pair_counts cm m ws)
         \<and> out_N_ij res Nij = Inr entry
         \<and> entry = map (\<lambda>p. Nij ! fst p ! snd p) (tril_indices (ncol res))
         \<and> length entry = ncol res * (ncol res - 1) div 2
         \<and> set (tril_indices (ncol res)) = {(i, j). j < i \<and> i < ncol res}
         \<and> sorted_wrt lex_less (tril_indices (ncol res))
         \<and> (fst (write_msgpack cm f res msa weights pair_freq lam w) = Inr () \<longrightarrow>
              (\<exists>old c.
                 written (files (snd (write_msgpack cm f res msa weights pair_freq lam w))
                          ! handle_of f w) = old @ [c]
               \<and> N_ij c = entry))"
proof -
  define Nij where "Nij = Nij_of (pair_counts cm m ws)"
  define entry where "entry = map (\<lambda>p. Nij ! fst p ! snd p) (tril_indices (ncol res))"
  have 1: "calculate_Nij cm msa weights w = (Inr Nij, w)"
    unfolding Nij_def by (rule calculate_Nij_eq [OF assms(1,2)])
  have shN: "shape2 (ncol res) (ncol res) Nij"
    unfolding Nij_def by (rule Nij_of_shape [OF assms(7)])
  have "getitem_cells Nij (tril_indices (ncol res)) = Inr entry"
    unfolding entry_def by (rule getitem_cells_ok [OF shN]) (auto simp: set_tril_indices)
  then have 2: "out_N_ij res Nij = Inr entry"
    by (simp add: out_N_ij_def)
  have 3: "length entry = ncol res * (ncol res - 1) div 2"
    by (simp add: entry_def length_tril_indices)
  have 4: "\<exists>old c.
             written (files (snd (write_msgpack cm f res msa weights pair_freq lam w))
                      ! handle_of f w) = old @ [c]
           \<and> N_ij c = entry"
    if ok: "fst (write_msgpack cm f res msa weights pair_freq lam w) = Inr ()"
  proof -
    from write_msgpack_success [OF assms ok] obtain old where
      "written (files (snd (write_msgpack cm f res msa weights pair_freq lam w)) ! handle_of f w) =
         old @ [\<lparr>N_ij = entry,
                  q_ij = map clamp0 (concat (model_rows pf xp lam Nij (ncol res)))\<rparr>]"
      unfolding entry_def Nij_def by blast
    then show ?thesis
      by (intro exI [of _ old]
          exI [of _ "\<lparr>N_ij = entry,
                       q_ij = map clamp0 (concat (model_rows pf xp lam Nij (ncol res)))\<rparr>"])
         simp
  qed
  have 5: "set (tril_indices (ncol res)) = {(i, j). j < i \<and> i < ncol res}"
    by (rule set_tril_indices)
  have 6: "sorted_wrt lex_less (tril_indices (ncol res))"
    by (rule sorted_tril_indices)
  have 7: "entry = map (\<lambda>p. Nij ! fst p ! snd p) (tril_indices (ncol res))"
    by (rule entry_def)
  have 8: "Nij = Nij_of (pair_counts cm m ws)"
    by (rule Nij_def)
  from 1 8 2 7 3 5 6 4 show ?thesis
    by blast
qed

theorem N_ij_layout_witness:
  "holds world3 0 (I2 msa3) \<and> holds world3 1 (F1 weights3)
   \<and> holds world3 2 (F4 (full4 3 (Fin (1 / 441)))) \<and> holds world3 3 (F4 (full4 3 (Fin 0)))
   \<and> shape4 3 21 (full4 3 (Fin (1 / 441))) \<and> shape4 3 21 (full4 3 (Fin 0))
   \<and> shape4 3 21 (pair_counts ccmpred_counts msa3 weights3)
   \<and> python world3 = Python2
   \<and> fst (call 3 world3) = Inr ()
   \<and> (\<exists>Nij entry. calculate_Nij ccmpred_counts 0 1 world3 = (Inr Nij, world3)
         \<and> out_N_ij \<lparr>ncol = 3, x_pair = 3\<rparr> Nij = Inr entry
         \<and> entry = [Fin 1, Fin 2, Fin 3] \<and> length entry = 3
         \<and> (\<exists>old c. written (files (snd (call 3 world3)) ! 0) = old @ [c] \<and> N_ij c = entry))"
proof -
  let ?res = "\<lparr>ncol = 3, x_pair = 3\<rparr>"
  have h: "holds world3 0 (I2 msa3)" "holds world3 1 (F1 weights3)"
    "holds world3 2 (F4 (full4 3 (Fin (1 / 441))))" "holds world3 3 (F4 (full4 3 (Fin 0)))"
    by (simp_all add: world3_def world_of_def holds_def)
  have sh: "shape4 3 21 (full4 3 (Fin (1 / 441)))" "shape4 3 21 (full4 3 (Fin 0))"
    "shape4 3 21 (pair_counts ccmpred_counts msa3 weights3)"
    using shape_ccmpred_counts(1) [of msa3 weights3] by (simp_all add: shape4_full4)
  have py: "python world3 = Python2"
    by (simp add: world3_def world_of_def)
  have ok: "fst (call 3 world3) = Inr ()"
    by (rule call3_result)
  have ok': "fst (write_msgpack ccmpred_counts (Stream 0) ?res 0 1 2 (Fin 1) world3) = Inr ()"
    using ok by (simp add: call_def)
  have h': "holds world3 (x_pair ?res) (F4 (full4 3 (Fin 0)))"
    "shape4 (ncol ?res) 21 (full4 3 (Fin (1 / 441)))" "shape4 (ncol ?res) 21 (full4 3 (Fin 0))"
    "shape4 (ncol ?res) 21 (pair_counts ccmpred_counts msa3 weights3)"
    using h sh by simp_all
  from N_ij_layout [OF h(1,2,3) h', of "Stream 0" "Fin 1"] ok'
  obtain Nij entry old c where r:
    "calculate_Nij ccmpred_counts 0 1 world3 = (Inr Nij, world3)"
    "Nij = Nij_of (pair_counts ccmpred_counts msa3 weights3)"
    "out_N_ij ?res Nij = Inr entry"
    "entry = map (\<lambda>p. Nij ! fst p ! snd p) (tril_indices (ncol ?res))"
    "length entry = ncol ?res * (ncol ?res - 1) div 2"
    "written (files (snd (write_msgpack ccmpred_counts (Stream 0) ?res 0 1 2 (Fin 1) world3))
       ! handle_of (Stream 0) world3) = old @ [c]"
    "N_ij c = entry"
    by blast
  from r(2,4) have e: "entry = [Fin 1, Fin 2, Fin 3]"
    by (simp add: tril_examples Nij3_cells)
  from r(6) have wr: "written (files (snd (call 3 world3)) ! 0) = old @ [c]"
    by (simp add: call_def handle_of_def)
  from e have "length entry = 3"
    by simp
  with r(1,3,7) e wr h sh py ok show ?thesis
    by blast
qed

text \<open>
  When a call with arrays of the shapes of the data model returns, the entry \<open>q_ij\<close>
  of the container it has written has length \<open>400 L (L - 1) / 2\<close>. Its entry
  \<open>k * 400 + a * 20 + b\<close> is the model probability of the amino acids \<open>a\<close> and \<open>b\<close> for
  the \<open>k\<close>-th pair, set to zero where it is negative; the pairs are the pairs \<open>i < j\<close> of
  columns in increasing lexicographic order.
\<close>

lemma returned_q_ij_layout:
  fixes lam :: fl
  assumes "holds w msa (I2 m)" and "holds w weights (F1 ws)"
    and "holds w pair_freq (F4 pf)" and "holds w (x_pair res) (F4 xp)"
    and "shape4 (ncol res) 21 pf" and "shape4 (ncol res) 21 xp"
    and "shape4 (ncol res) 21 (pair_counts cm m ws)"
    and "fst (write_msgpack cm f res msa weights pair_freq lam w) = Inr ()"
    and "k < ncol res * (ncol res - 1) div 2" and "a < 20" and "b < 20"
  shows "\<exists>old c i j.
           written (files (snd (write_msgpack cm f res msa weights pair_freq lam w))
                    ! handle_of f w) = old @ [c]
         \<and> length (q_ij c) = 400 * (ncol res * (ncol res - 1) div 2)
         \<and> upper_pairs (ncol res) ! k = (i, j) \<and> i < j \<and> j < ncol res
         \<and> q_ij c ! (k * 400 + a * 20 + b)
             = clamp0 (fsub (pf ! i ! j ! a ! b)
                 (fdiv (fmul (xp ! i ! j ! a ! b) lam) (Nij_of (pair_counts cm m ws) ! i ! j)))
         \<and> length (upper_pairs (ncol res)) = ncol res * (ncol res - 1) div 2
         \<and> set (upper_pairs (ncol res)) = {(i, j). i < j \<and> j < ncol res}
         \<and> sorted_wrt lex_less (upper_pairs (ncol res))"
proof -
  define L where "L = ncol res"
  define Nij where "Nij = Nij_of (pair_counts cm m ws)"
  define rows where "rows = model_rows pf xp lam Nij L"
  note sh = assms(5,6) [folded L_def]
  from write_msgpack_success [OF assms(1-8)] obtain old where
    wr: "written (files (snd (write_msgpack cm f res msa weights pair_freq lam w)) ! handle_of f w)
         = old @ [\<lparr>N_ij = map (\<lambda>p. Nij ! fst p ! snd p) (tril_indices L),
                    q_ij = map clamp0 (concat rows)\<rparr>]"
    unfolding L_def Nij_def rows_def by blast
  have len: "length rows = L * (L - 1) div 2"
    by (simp add: rows_def model_rows_def length_upper_pairs)
  have k: "k < length (upper_pairs L)"
    using assms(9) by (simp add: length_upper_pairs L_def)
  obtain i j where p: "upper_pairs L ! k = (i, j)"
    by (cases "upper_pairs L ! k")
  from k p have "(i, j) \<in> set (upper_pairs L)"
    by (metis nth_mem)
  then have ij: "i < j" "j < L" "i < L"
    by (auto simp: set_upper_pairs)
  have uni: "\<forall>r \<in> set rows. length r = 400"
    using sh by (auto simp: rows_def model_rows_def set_upper_pairs model_row_length)
  have ab: "a * 20 + b < 400"
    using assms(10,11) by simp
  have kr: "k < length rows"
    using k by (simp add: rows_def model_rows_def)
  have cat: "concat rows ! (k * 400 + (a * 20 + b)) = rows ! k ! (a * 20 + b)"
    by (rule concat_nth_uniform [OF uni kr ab])
  have "k * 400 + (a * 20 + b) < Suc k * 400"
    using ab by simp
  also have "\<dots> \<le> length rows * 400"
    using kr by (intro mult_le_mono1) simp
  finally have idx: "k * 400 + (a * 20 + b) < length (concat rows)"
    by (simp add: length_concat_uniform [OF uni])
  have "rows ! k = model_row pf xp lam Nij (i, j)"
    using k p by (simp add: rows_def model_rows_def)
  then have "rows ! k ! (a * 20 + b)
      = fsub (pf ! i ! j ! a ! b) (fdiv (fmul (xp ! i ! j ! a ! b) lam) (Nij ! i ! j))"
    using model_row_nth [OF sh ij(3,2) assms(10,11)] by simp
  with cat idx have q: "map clamp0 (concat rows) ! (k * 400 + a * 20 + b)
      = clamp0 (fsub (pf ! i ! j ! a ! b) (fdiv (fmul (xp ! i ! j ! a ! b) lam) (Nij ! i ! j)))"
    by (simp add: add.assoc)
  have l: "length (map clamp0 (concat rows)) = 400 * (L * (L - 1) div 2)"
    by (simp add: length_concat_uniform [OF uni] len)
  from wr l p ij(1,2) q show ?thesis
    unfolding L_def [symmetric]
    by (intro exI [of _ old] exI [of _ i] exI [of _ j]
        exI [of _ "\<lparr>N_ij = map (\<lambda>p. Nij ! fst p ! snd p) (tril_indices L),
                     q_ij = map clamp0 (concat rows)\<rparr>"])
       (simp add: Nij_def length_upper_pairs set_upper_pairs sorted_upper_pairs)
qed

text \<open>
  C5. The call for an alignment of three columns, under Python 3: it raises \<open>TypeError\<close>
  at \<open>np.zeros\<close>, before \<open>model_prob\<close> exists; the dictionary never gets its entry
  \<open>q_ij\<close> and nothing is written to the stream. The same call under Python 2 returns
  and has written the container with the 1200 entries of \<open>q_ij\<close>.
\<close>

theorem q_ij_not_written:
  "python world3_py3 = Python3
   \<and> fst (call 3 world3_py3) = Inl TypeError
   \<and> written (files (snd (call 3 world3_py3)) ! 0) = []
   \<and> python world3 = Python2
   \<and> fst (call 3 world3) = Inr ()
   \<and> written (files (snd (call 3 world3)) ! 0)
       = [\<lparr>N_ij = [Fin 1, Fin 2, Fin 3], q_ij = replicate 1200 (Fin (1 / 441))\<rparr>]"
  by (simp add: call3_python3 call3_result)
     (simp add: world3_py3_def world3_def world_of_def)

section \<open>Model probabilities that are not numbers\<close>

text \<open>
  C2. The calls are run by Python 2, so that they get past \<open>np.zeros\<close>. The alignment
  has two columns and one sequence with a gap in the first column, so
  \<open>Nij[0, 1] = 0\<close>. With pair potentials 0 the model probabilities are \<open>0 / 0\<close>, NaN:
  the call prints the warning and then raises \<open>IndexError\<close>, since the mask of the
  repair has two dimensions and the array it indexes has one; nothing is written. With
  pair potentials \<open>- 1\<close> the model probabilities are plus infinity: no repair applies,
  no warning is printed and the infinite values are written.
\<close>

theorem nan_and_infinity_not_clamped:
  "fst (call 2 (world2 (Fin 0))) = Inl IndexError
   \<and> written (files (snd (call 2 (world2 (Fin 0)))) ! 0) = []
   \<and> fst (call 2 (world2 (Fin (- 1)))) = Inr ()
   \<and> map q_ij (written (files (snd (call 2 (world2 (Fin (- 1))))) ! 0)) = [replicate 400 PInf]
   \<and> stdout (snd (call 2 (world2 (Fin (- 1))))) = []"
  by (simp add: call2_nan call2_inf)


end
